theory Spec2Isabelle
  imports Complex_Main "HOL-Library.Word"
begin

section \<open>Window state machine: collapse states\<close>

text \<open>
  \<^verbatim>\<open>export type CollapseState = 'expanded' | 'rectangle' | 'square';\<close>
\<close>

datatype CollapseState = Expanded | Rectangle | Square

record Size =
  width :: real
  height :: real

text \<open>
  The two pieces of React state the collapse handlers and the \<^verbatim>\<open>Rnd\<close> size
  props read: \<^verbatim>\<open>collapseState\<close> and \<^verbatim>\<open>windowSize\<close>.
\<close>

record WindowView =
  collapseState :: CollapseState
  windowSize :: Size

text \<open>
  \<^verbatim>\<open>setCollapseState(prev => (prev === 'rectangle' ? 'expanded' : 'rectangle'))\<close>
\<close>

definition handleCollapseToRectangle :: "WindowView \<Rightarrow> WindowView" where
  "handleCollapseToRectangle w =
     w\<lparr>collapseState := (if collapseState w = Rectangle then Expanded else Rectangle)\<rparr>"

text \<open>
  \<^verbatim>\<open>setCollapseState(prev => (prev === 'square' ? 'expanded' : 'square'))\<close>
\<close>

definition handleCollapseToSquare :: "WindowView \<Rightarrow> WindowView" where
  "handleCollapseToSquare w =
     w\<lparr>collapseState := (if collapseState w = Square then Expanded else Square)\<rparr>"

text \<open>
  The square toggle button: \<^verbatim>\<open>onClick={() => setCollapseState('expanded')}\<close>.
\<close>

definition handleExpand :: "WindowView \<Rightarrow> WindowView" where
  "handleExpand w = w\<lparr>collapseState := Expanded\<rparr>"

definition squareSize :: real where
  "squareSize = 100"

definition headerOnlyHeight :: real where
  "headerOnlyHeight = 44"

text \<open>
  The \<^verbatim>\<open>size\<close> prop handed to \<^verbatim>\<open>Rnd\<close>:
  width is \<^verbatim>\<open>isSquareCollapsed ? squareSize : windowSize.width\<close>, height is
  \<^verbatim>\<open>isExpanded ? windowSize.height : (isRectangleCollapsed ? headerOnlyHeight : squareSize)\<close>.
\<close>

definition renderedSize :: "WindowView \<Rightarrow> Size" where
  "renderedSize w =
     \<lparr>width = (if collapseState w = Square then squareSize else width (windowSize w)),
      height = (if collapseState w = Expanded then height (windowSize w)
                else if collapseState w = Rectangle then headerOnlyHeight else squareSize)\<rparr>"

text \<open>
  The \<^verbatim>\<open>enableResizing\<close> prop: the resize handles exist only while expanded, so
  \<^verbatim>\<open>handleResize\<close> and \<^verbatim>\<open>handleResizeStop\<close> cannot fire in a collapsed state.
\<close>

definition enableResizing :: "WindowView \<Rightarrow> bool" where
  "enableResizing w = (collapseState w = Expanded)"

section \<open>Strings\<close>

text \<open>
  A JavaScript string is a sequence of UTF-16 code units. \<open>js\<close> turns an ASCII
  literal into one.
\<close>

type_synonym jsstring = "16 word list"

definition js :: "string \<Rightarrow> jsstring" where
  "js s = map of_char s"

definition LF :: "16 word" where
  "LF = 0xA"

definition CR :: "16 word" where
  "CR = 0xD"

text \<open>
  The code units that \<^verbatim>\<open>String.prototype.trim\<close> strips and that \<^verbatim>\<open>\s\<close> matches:
  ECMAScript \<^verbatim>\<open>WhiteSpace\<close> (TAB, VT, FF, ZWNBSP and the space separators) and
  \<^verbatim>\<open>LineTerminator\<close> (LF, CR, LS, PS).
\<close>

definition isWhiteSpace :: "16 word \<Rightarrow> bool" where
  "isWhiteSpace c =
     (c = 0x9 \<or> c = 0xA \<or> c = 0xB \<or> c = 0xC \<or> c = 0xD \<or> c = 0x20 \<or> c = 0xA0
      \<or> c = 0x1680 \<or> (0x2000 \<le> c \<and> c \<le> 0x200A) \<or> c = 0x2028 \<or> c = 0x2029
      \<or> c = 0x202F \<or> c = 0x205F \<or> c = 0x3000 \<or> c = 0xFEFF)"

text \<open>\<^verbatim>\<open>value.replace(/^\s+/, '')\<close>\<close>

definition trimStart :: "jsstring \<Rightarrow> jsstring" where
  "trimStart s = dropWhile isWhiteSpace s"

text \<open>\<^verbatim>\<open>value.trim()\<close>\<close>

definition trim :: "jsstring \<Rightarrow> jsstring" where
  "trim s = rev (dropWhile isWhiteSpace (rev (dropWhile isWhiteSpace s)))"

text \<open>
  \<^verbatim>\<open>const normalizeNewlines = (value: string): string => value.replace(/\r\n/g, '\n');\<close>
  The global replace scans left to right and its matches do not overlap.
\<close>

fun normalizeNewlines :: "jsstring \<Rightarrow> jsstring" where
  "normalizeNewlines [] = []"
| "normalizeNewlines [c] = [c]"
| "normalizeNewlines (c # d # cs) =
     (if c = CR \<and> d = LF then LF # normalizeNewlines cs else c # normalizeNewlines (d # cs))"

text \<open>
  \<^verbatim>\<open>s.indexOf(pat)\<close>: the least index at which \<open>pat\<close> starts, or \<open>-1\<close>.
\<close>

fun indexOfFrom :: "jsstring \<Rightarrow> jsstring \<Rightarrow> nat \<Rightarrow> int" where
  "indexOfFrom pat [] i = (if pat = [] then int i else - 1)"
| "indexOfFrom pat (c # cs) i =
     (if take (length pat) (c # cs) = pat then int i else indexOfFrom pat cs (Suc i))"

definition indexOf :: "jsstring \<Rightarrow> jsstring \<Rightarrow> int" where
  "indexOf s pat = indexOfFrom pat s 0"

section \<open>Streaming aggregator: partitioning the finished text\<close>

text \<open>The result \<^verbatim>\<open>{ answer: string; thinking?: string }\<close>.\<close>

record Separated =
  answer :: jsstring
  thinking :: "jsstring option"

text \<open>
  \<^verbatim>\<open>separateAssistantResponse(fullContent, deltaHistory)\<close>. The slices
  \<^verbatim>\<open>slice(0, doubleBreakIndex)\<close> and \<^verbatim>\<open>slice(doubleBreakIndex + 2)\<close> are only used
  when the index is not \<open>-1\<close>; a string is truthy when it is not empty. The last
  return of the source is \<open>wholeText\<close>.
\<close>

definition separateAssistantResponse :: "jsstring \<Rightarrow> jsstring list \<Rightarrow> Separated" where
  "separateAssistantResponse fullContent deltaHistory =
     (let normalizedFull = normalizeNewlines fullContent;
          trimmedFull = trim normalizedFull;
          wholeText = \<lparr>answer = trimStart normalizedFull, thinking = None\<rparr>
      in if trimmedFull = [] then \<lparr>answer = [], thinking = None\<rparr>
         else
           let doubleBreakIndex = indexOf normalizedFull [LF, LF];
               thinkingCandidate = trim (take (nat doubleBreakIndex) normalizedFull);
               answerRaw = drop (nat (doubleBreakIndex + 2)) normalizedFull;
               answerCandidate = trimStart answerRaw
           in if doubleBreakIndex \<noteq> - 1 \<and> thinkingCandidate \<noteq> []
                 \<and> length (trim answerCandidate) > 0
              then \<lparr>answer = answerCandidate, thinking = Some thinkingCandidate\<rparr>
              else if length deltaHistory > 1
              then (case map normalizeNewlines deltaHistory of
                      [] \<Rightarrow> wholeText
                    | firstChunk # restChunks \<Rightarrow>
                        let thinkingCandidate = trim firstChunk;
                            restCombinedRaw = concat restChunks;
                            restCombinedNormalized = normalizeNewlines restCombinedRaw;
                            answerCandidate = trimStart restCombinedNormalized
                        in if thinkingCandidate \<noteq> [] \<and> length (trim answerCandidate) > 0
                           then \<lparr>answer = answerCandidate, thinking = Some thinkingCandidate\<rparr>
                           else wholeText)
              else wholeText)"

subsection \<open>The partition as the specification words it\<close>

text \<open>
  The portions before and after the first double newline of a text, when it has one.
\<close>

fun splitAtFirstDoubleBreak :: "jsstring \<Rightarrow> (jsstring \<times> jsstring) option" where
  "splitAtFirstDoubleBreak [] = None"
| "splitAtFirstDoubleBreak [c] = None"
| "splitAtFirstDoubleBreak (c # d # cs) =
     (if c = LF \<and> d = LF then Some ([], cs)
      else (case splitAtFirstDoubleBreak (d # cs) of
              None \<Rightarrow> None
            | Some (before, after) \<Rightarrow> Some (c # before, after)))"

fun hasDoubleBreak :: "jsstring \<Rightarrow> bool" where
  "hasDoubleBreak [] = False"
| "hasDoubleBreak [c] = False"
| "hasDoubleBreak (c # d # cs) = ((c = LF \<and> d = LF) \<or> hasDoubleBreak (d # cs))"

text \<open>
  The three branches read literally, on the fragments received: non-empty means
  not the empty string, and the portions and fragments are taken as they are.
\<close>

definition spec_partition :: "jsstring list \<Rightarrow> Separated" where
  "spec_partition fragments =
     (let text = concat fragments;
          byFragments =
            (case fragments of
               [] \<Rightarrow> \<lparr>answer = text, thinking = None\<rparr>
             | first # rest \<Rightarrow>
                 if rest \<noteq> [] \<and> first \<noteq> [] \<and> concat rest \<noteq> []
                 then \<lparr>answer = concat rest, thinking = Some first\<rparr>
                 else \<lparr>answer = text, thinking = None\<rparr>)
      in case splitAtFirstDoubleBreak text of
           None \<Rightarrow> byFragments
         | Some (before, after) \<Rightarrow>
             if before \<noteq> [] \<and> after \<noteq> []
             then \<lparr>answer = after, thinking = Some before\<rparr>
             else byFragments)"

text \<open>
  The same three branches with the whitespace handling written out: line ends are
  normalised first, a blank text gives the empty answer, non-empty means not blank,
  \<open>thinking\<close> is trimmed and \<open>answer\<close> loses its leading whitespace.
\<close>

definition amended_partition :: "jsstring \<Rightarrow> jsstring list \<Rightarrow> Separated" where
  "amended_partition fullContent fragments =
     (let text = normalizeNewlines fullContent;
          byFragments =
            (case fragments of
               [] \<Rightarrow> \<lparr>answer = trimStart text, thinking = None\<rparr>
             | first # rest \<Rightarrow>
                 let others = normalizeNewlines (concat (map normalizeNewlines rest)) in
                 if rest \<noteq> [] \<and> trim (normalizeNewlines first) \<noteq> [] \<and> trim others \<noteq> []
                 then \<lparr>answer = trimStart others, thinking = Some (trim (normalizeNewlines first))\<rparr>
                 else \<lparr>answer = trimStart text, thinking = None\<rparr>)
      in if trim text = [] then \<lparr>answer = [], thinking = None\<rparr>
         else case splitAtFirstDoubleBreak text of
           None \<Rightarrow> byFragments
         | Some (before, after) \<Rightarrow>
             if trim before \<noteq> [] \<and> trim after \<noteq> []
             then \<lparr>answer = trimStart after, thinking = Some (trim before)\<rparr>
             else byFragments)"

section \<open>Descriptor resolver\<close>

text \<open>
  Pixel coordinates are JavaScript numbers; they are modelled as reals.
\<close>

record BoundingRect =
  top :: real
  left :: real
  rectWidth :: real
  rectHeight :: real

text \<open>
  \<^verbatim>\<open>ElementDescriptor\<close> (declared in \<^verbatim>\<open>elementIdService\<close>). The fields \<^verbatim>\<open>id\<close>,
  \<^verbatim>\<open>cssSelector\<close> and \<^verbatim>\<open>xpath\<close> are only read for their truthiness before use:
  an absent field and the empty string both count as absent and are the empty string
  here. \<^verbatim>\<open>boundingRect\<close> is tested with \<^verbatim>\<open>targetRect &&\<close>, so it may be absent.
\<close>

record ElementDescriptor =
  chatId :: jsstring
  tagName :: jsstring
  id_d :: jsstring
  classes :: "jsstring list"
  cssSelector :: jsstring
  xpath :: jsstring
  textPreview :: jsstring
  boundingRect :: "BoundingRect option"

text \<open>
  The host page. An element has an identity (\<open>node\<close>), its \<^verbatim>\<open>id\<close> attribute (empty
  when it has none), its \<^verbatim>\<open>data-nabokov-chat-id\<close> attribute, whether it is an
  \<^verbatim>\<open>HTMLElement\<close> (an SVG element is not), and the rectangle that
  \<^verbatim>\<open>getBoundingClientRect()\<close> returns. A document lists its elements in tree order;
  \<open>matchesSelector\<close> is the selector engine: the elements a selector string matches, or
  \<open>None\<close> when the string is not a valid selector (the DOM call then throws).
\<close>

record Element =
  node :: nat
  id_e :: jsstring
  chatIdAttr :: "jsstring option"
  isHTMLElement :: bool
  getBoundingClientRect :: BoundingRect

datatype DOMException = SyntaxError

record Document =
  elements :: "Element list"
  matchesSelector :: "jsstring \<Rightarrow> (Element \<Rightarrow> bool) option"

text \<open>\<^verbatim>\<open>document.getElementById(id)\<close>: the first element in tree order with that id.\<close>

definition getElementById :: "Document \<Rightarrow> jsstring \<Rightarrow> Element option" where
  "getElementById doc i = find (\<lambda>e. id_e e = i) (elements doc)"

text \<open>\<^verbatim>\<open>document.querySelector(sel)\<close>: the first match, \<^verbatim>\<open>null\<close>, or a thrown exception.\<close>

definition querySelector :: "Document \<Rightarrow> jsstring \<Rightarrow> DOMException + Element option" where
  "querySelector doc sel =
     (case matchesSelector doc sel of
        None \<Rightarrow> Inl SyntaxError
      | Some matches \<Rightarrow> Inr (find matches (elements doc)))"

text \<open>\<^verbatim>\<open>document.querySelectorAll(sel)\<close>: all matches in tree order, or a thrown exception.\<close>

definition querySelectorAll :: "Document \<Rightarrow> jsstring \<Rightarrow> DOMException + Element list" where
  "querySelectorAll doc sel =
     (case matchesSelector doc sel of
        None \<Rightarrow> Inl SyntaxError
      | Some matches \<Rightarrow> Inr (filter matches (elements doc)))"

text \<open>The template \<^verbatim>\<open>`[data-nabokov-chat-id="${descriptor.chatId}"]`\<close>; \<open>0x22\<close> is the double quote.\<close>

definition chatIdSelector :: "jsstring \<Rightarrow> jsstring" where
  "chatIdSelector c = js ''[data-nabokov-chat-id='' @ [0x22] @ c @ [0x22] @ js '']''"

text \<open>
  The test of the candidate loop:
  \<^verbatim>\<open>targetRect && Math.abs(rect.top - targetRect.top) < 5 && Math.abs(rect.left - targetRect.left) < 5\<close>.
\<close>

definition nearTarget :: "ElementDescriptor \<Rightarrow> Element \<Rightarrow> bool" where
  "nearTarget d candidate =
     (case boundingRect d of
        None \<Rightarrow> False
      | Some targetRect \<Rightarrow>
          \<bar>top (getBoundingClientRect candidate) - top targetRect\<bar> < 5
          \<and> \<bar>left (getBoundingClientRect candidate) - left targetRect\<bar> < 5)"

text \<open>
  \<^verbatim>\<open>resolveElementForDescriptor(descriptor)\<close>. \<open>findElementByDescriptor\<close> is imported from
  \<^verbatim>\<open>elementIdService\<close> and is a parameter. Only the \<^verbatim>\<open>querySelector\<close> call sits in a
  \<^verbatim>\<open>try\<close>; an exception of \<^verbatim>\<open>querySelectorAll\<close> leaves the function. The candidate
  loop skips what is not an \<^verbatim>\<open>HTMLElement\<close> and returns the first near candidate.
\<close>

definition resolveElementForDescriptor ::
  "(ElementDescriptor \<Rightarrow> Element option) \<Rightarrow> Document \<Rightarrow> ElementDescriptor
     \<Rightarrow> DOMException + Element option" where
  "resolveElementForDescriptor findElementByDescriptor doc descriptor =
     (let byId = (if id_d descriptor \<noteq> [] then getElementById doc (id_d descriptor) else None)
      in if (case byId of None \<Rightarrow> False | Some e \<Rightarrow> isHTMLElement e) then Inr byId
         else
           let bySelector =
                 (if cssSelector descriptor \<noteq> []
                  then (case querySelector doc (cssSelector descriptor) of
                          Inl error \<Rightarrow> None
                        | Inr found \<Rightarrow> found)
                  else None)
           in if (case bySelector of None \<Rightarrow> False | Some e \<Rightarrow> isHTMLElement e) then Inr bySelector
              else
                (case querySelectorAll doc (chatIdSelector (chatId descriptor)) of
                   Inl error \<Rightarrow> Inl error
                 | Inr chatMatches \<Rightarrow>
                     (case (if length chatMatches > 1
                            then find (\<lambda>candidate. isHTMLElement candidate \<and> nearTarget descriptor candidate)
                                   chatMatches
                            else None) of
                        Some candidate \<Rightarrow> Inr (Some candidate)
                      | None \<Rightarrow>
                          (case chatMatches of
                             [] \<Rightarrow> Inr (findElementByDescriptor descriptor)
                           | fallback # others \<Rightarrow>
                               if isHTMLElement fallback then Inr (Some fallback)
                               else Inr (findElementByDescriptor descriptor)))))"

subsection \<open>The resolution order as the specification words it\<close>






subsection \<open>An example page with a duplicated element\<close>


definition dupSecond :: Element where
  "dupSecond = \<lparr>node = 2, id_e = js ''x'', chatIdAttr = Some (js ''c''), isHTMLElement = True,
     getBoundingClientRect = \<lparr>top = 100, left = 0, rectWidth = 200, rectHeight = 80\<rparr>\<rparr>"

definition dupEngine :: "jsstring \<Rightarrow> (Element \<Rightarrow> bool) option" where
  "dupEngine sel =
     (if sel = js ''#x'' then Some (\<lambda>e. id_e e = js ''x'')
      else if sel = chatIdSelector (js ''c'') then Some (\<lambda>e. chatIdAttr e = Some (js ''c''))
      else None)"


definition dupDescriptor :: ElementDescriptor where
  "dupDescriptor =
     \<lparr>chatId = js ''c'', tagName = js ''div'', id_d = js ''x'', classes = [],
      cssSelector = js ''#x'', xpath = [], textPreview = [],
      boundingRect = Some \<lparr>top = 100, left = 0, rectWidth = 200, rectHeight = 80\<rparr>\<rparr>"



definition singleDocument :: Document where
  "singleDocument = \<lparr>elements = [dupSecond], matchesSelector = dupEngine\<rparr>"

section \<open>Anchor registry\<close>

text \<open>A pixel pair \<^verbatim>\<open>{ x: number; y: number }\<close>.\<close>

record Point =
  px :: real
  py :: real

definition ANCHOR_ALIGNMENT_NUDGE_PX :: real where
  "ANCHOR_ALIGNMENT_NUDGE_PX = 32"

text \<open>
  The refs and React state that the anchor code reads and writes. A state variable and
  the ref that mirrors it after the next render (\<^verbatim>\<open>position\<close> and \<^verbatim>\<open>positionRef\<close>,
  \<^verbatim>\<open>anchorOffset\<close> and \<^verbatim>\<open>anchorOffsetRef\<close>, \<^verbatim>\<open>activeAnchorKey\<close> and
  \<^verbatim>\<open>activeAnchorKeyRef\<close>) are one field: no function below reads a ref after it has set
  only the state. \<open>anchorOffsets\<close> is the map \<^verbatim>\<open>anchorOffsetsRef.current\<close>.
\<close>

record AnchorState =
  isMounted :: bool
  position :: Point
  anchorOffset :: "Point option"
  anchorOffsets :: "jsstring \<rightharpoonup> Point"
  activeAnchorKey :: jsstring
  anchorElement :: "Element option"
  anchorElementMissing :: bool
  isDragging :: bool

text \<open>
  \<^verbatim>\<open>descriptorEntries\<close> is the descriptor list with the key of each entry. A descriptor
  object is identified by its index in the list (the objects of the list are distinct).
  \<^verbatim>\<open>descriptorMap\<close> is filled by \<^verbatim>\<open>forEach\<close> with \<^verbatim>\<open>map.set(key, descriptor)\<close>, so
  the last entry with a key is the one \<^verbatim>\<open>descriptorMap.get(key)\<close> returns.
\<close>

type_synonym descriptorEntries = "(ElementDescriptor \<times> jsstring) list"

definition descriptorMapGet :: "descriptorEntries \<Rightarrow> jsstring \<Rightarrow> nat option" where
  "descriptorMapGet entries key =
     find (\<lambda>i. snd (entries ! i) = key) (rev [0..<length entries])"

text \<open>
  The priority list of \<^verbatim>\<open>ensureAnchorPosition\<close>: the preferred descriptor, when the
  active key is truthy and known, then every descriptor not yet included.
\<close>

definition priorityDescriptors :: "descriptorEntries \<Rightarrow> jsstring \<Rightarrow> nat list" where
  "priorityDescriptors entries activeKey =
     (let preferred = (if activeKey \<noteq> [] then descriptorMapGet entries activeKey else None)
      in (case preferred of None \<Rightarrow> [] | Some i \<Rightarrow> [i])
         @ filter (\<lambda>j. Some j \<noteq> preferred) [0..<length entries])"

text \<open>
  The loop \<^verbatim>\<open>for (const descriptor of priorityDescriptors)\<close>: the first descriptor that
  resolves, with its element.
\<close>

fun firstResolved ::
  "(ElementDescriptor \<Rightarrow> Element option) \<Rightarrow> Document \<Rightarrow> descriptorEntries \<Rightarrow> nat list
     \<Rightarrow> DOMException + (nat \<times> Element) option" where
  "firstResolved findElementByDescriptor doc entries [] = Inr None"
| "firstResolved findElementByDescriptor doc entries (i # rest) =
     (case resolveElementForDescriptor findElementByDescriptor doc (fst (entries ! i)) of
        Inl error \<Rightarrow> Inl error
      | Inr (Some candidate) \<Rightarrow> Inr (Some (i, candidate))
      | Inr None \<Rightarrow> firstResolved findElementByDescriptor doc entries rest)"

text \<open>
  \<^verbatim>\<open>ensureAnchorPosition()\<close>, one repositioning tick. \<open>resolvedKey\<close> is
  \<^verbatim>\<open>descriptorKeyMap.get(resolvedDescriptor)\<close>; a key is truthy when it is not empty.
\<close>

definition ensureAnchorPosition ::
  "(ElementDescriptor \<Rightarrow> Element option) \<Rightarrow> Document \<Rightarrow> descriptorEntries \<Rightarrow> AnchorState
     \<Rightarrow> DOMException + AnchorState" where
  "ensureAnchorPosition findElementByDescriptor doc entries s =
     (if \<not> isMounted s then Inr s
      else
        case firstResolved findElementByDescriptor doc entries
               (priorityDescriptors entries (activeAnchorKey s)) of
          Inl error \<Rightarrow> Inl error
        | Inr None \<Rightarrow> Inr (s\<lparr>anchorElement := None, anchorElementMissing := True\<rparr>)
        | Inr (Some (i, element)) \<Rightarrow>
            let resolvedKey = snd (entries ! i);
                s1 = s\<lparr>anchorElement := Some element, anchorElementMissing := False,
                       activeAnchorKey :=
                         (if resolvedKey \<noteq> [] \<and> resolvedKey \<noteq> activeAnchorKey s
                          then resolvedKey else activeAnchorKey s)\<rparr>;
                rect = getBoundingClientRect element;
                s2 = (case anchorOffset s1 of
                        Some offset \<Rightarrow> s1
                      | None \<Rightarrow>
                          let inferredOffset =
                                \<lparr>px = px (position s) - left rect, py = py (position s) - top rect\<rparr>
                          in s1\<lparr>anchorOffset := Some inferredOffset,
                                anchorOffsets :=
                                  (if resolvedKey \<noteq> []
                                   then (anchorOffsets s1)(resolvedKey \<mapsto> inferredOffset)
                                   else anchorOffsets s1)\<rparr>);
                s3 = (case anchorOffset s2 of
                        None \<Rightarrow> s2
                      | Some offset \<Rightarrow>
                          if \<not> isDragging s2
                          then
                            let nextPosition =
                                  \<lparr>px = left rect + px offset, py = top rect + py offset\<rparr>
                            in if \<bar>px nextPosition - px (position s)\<bar> > 0.5
                                  \<or> \<bar>py nextPosition - py (position s)\<bar> > 0.5
                               then s2\<lparr>position := nextPosition\<rparr>
                               else s2
                          else s2)
            in Inr (case anchorOffset s3 of
                      None \<Rightarrow> s3
                    | Some offset \<Rightarrow>
                        if resolvedKey \<noteq> []
                        then s3\<lparr>anchorOffsets := (anchorOffsets s3)(resolvedKey \<mapsto> offset)\<rparr>
                        else s3))"

text \<open>
  The \<^verbatim>\<open>onClick\<close> handler of the anchor chip of entry \<open>index\<close>. It ends with a call
  of \<^verbatim>\<open>ensureAnchorPosition()\<close>.
\<close>

definition anchorChipClick ::
  "(ElementDescriptor \<Rightarrow> Element option) \<Rightarrow> Document \<Rightarrow> descriptorEntries \<Rightarrow> nat \<Rightarrow> AnchorState
     \<Rightarrow> DOMException + AnchorState" where
  "anchorChipClick findElementByDescriptor doc entries index s =
     (let descriptor = fst (entries ! index);
          key = snd (entries ! index);
          s0 = s\<lparr>activeAnchorKey := key\<rparr>
      in case resolveElementForDescriptor findElementByDescriptor doc descriptor of
           Inl error \<Rightarrow> Inl error
         | Inr None \<Rightarrow> ensureAnchorPosition findElementByDescriptor doc entries s0
         | Inr (Some element) \<Rightarrow>
             let rect = getBoundingClientRect element;
                 storedOffset = anchorOffsets s0 key;
                 chosen =
                   (case storedOffset of
                      Some stored \<Rightarrow> stored
                    | None \<Rightarrow>
                        (case anchorOffset s0 of
                           Some current \<Rightarrow> current
                         | None \<Rightarrow> \<lparr>px = min (rectWidth rect + 20) 240, py = 0\<rparr>));
                 nextOffset =
                   (case storedOffset of
                      Some stored \<Rightarrow> chosen
                    | None \<Rightarrow> \<lparr>px = px chosen, py = py chosen - ANCHOR_ALIGNMENT_NUDGE_PX\<rparr>);
                 nextPosition = \<lparr>px = left rect + px nextOffset, py = top rect + py nextOffset\<rparr>
             in ensureAnchorPosition findElementByDescriptor doc entries
                  (s0\<lparr>anchorElement := Some element, anchorElementMissing := False,
                      anchorOffset := Some nextOffset,
                      anchorOffsets := (anchorOffsets s0)(key \<mapsto> nextOffset),
                      position := nextPosition\<rparr>))"

subsection \<open>The default offset of the specification\<close>

text \<open>
  The default offset, clamped to a horizontal distance of at most 240 px, and the
  one-time upward nudge.
\<close>

definition defaultOffset :: "BoundingRect \<Rightarrow> Point" where
  "defaultOffset rect = \<lparr>px = min (rectWidth rect + 20) 240, py = 0\<rparr>"

definition nudged :: "Point \<Rightarrow> Point" where
  "nudged offset = \<lparr>px = px offset, py = py offset - 32\<rparr>"

definition plus_offset :: "BoundingRect \<Rightarrow> Point \<Rightarrow> Point" where
  "plus_offset rect offset = \<lparr>px = left rect + px offset, py = top rect + py offset\<rparr>"

text \<open>An anchor state of a mounted window at (300, 50) that has not met its anchor yet.\<close>

definition freshAnchorState :: AnchorState where
  "freshAnchorState =
     \<lparr>isMounted = True, position = \<lparr>px = 300, py = 50\<rparr>, anchorOffset = None,
      anchorOffsets = Map.empty, activeAnchorKey = js ''c|id:x'', anchorElement = None,
      anchorElementMissing = False, isDragging = False\<rparr>"


definition singleEntries :: descriptorEntries where
  "singleEntries = [(dupDescriptor, js ''c|id:x'')]"

section \<open>Session message list\<close>

datatype Role = User | Assistant

record PendingImage =
  dataURL :: jsstring
  imageWidth :: real
  imageHeight :: real

text \<open>
  \<^verbatim>\<open>ChatMessage\<close>. The source's \<^verbatim>\<open>id\<close> and \<^verbatim>\<open>thinking\<close> are \<open>id_m\<close> and
  \<open>thinking_m\<close> here.
\<close>

record ChatMessage =
  id_m :: jsstring
  role :: Role
  content :: jsstring
  timestamp :: nat
  turnId :: "jsstring option"
  images :: "PendingImage list option"
  thinking_m :: "jsstring option"

text \<open>
  \<^verbatim>\<open>dedupeMessagesById\<close>: the loop keeps a message when its id has not been seen.
\<close>

fun dedupeLoop :: "jsstring set \<Rightarrow> ChatMessage list \<Rightarrow> ChatMessage list" where
  "dedupeLoop seen [] = []"
| "dedupeLoop seen (message # rest) =
     (if id_m message \<in> seen then dedupeLoop seen rest
      else message # dedupeLoop (insert (id_m message) seen) rest)"

definition dedupeMessagesById :: "ChatMessage list \<Rightarrow> ChatMessage list" where
  "dedupeMessagesById messages = dedupeLoop {} messages"

text \<open>
  The loop \<^verbatim>\<open>for (let i = length - 1; i >= 0; i--) if (role === 'assistant') { splice(i, 1); break; }\<close>:
  the last assistant message is removed.
\<close>

fun removeFirstAssistant :: "ChatMessage list \<Rightarrow> ChatMessage list" where
  "removeFirstAssistant [] = []"
| "removeFirstAssistant (message # rest) =
     (if role message = Assistant then rest else message # removeFirstAssistant rest)"

definition removeLastAssistant :: "ChatMessage list \<Rightarrow> ChatMessage list" where
  "removeLastAssistant messages = rev (removeFirstAssistant (rev messages))"

text \<open>
  The effect that rebuilds \<^verbatim>\<open>assistantTurnMapRef.current\<close> from \<^verbatim>\<open>messages\<close>: every
  assistant message with a truthy \<^verbatim>\<open>turnId\<close> sets \<^verbatim>\<open>turnId \<mapsto> id\<close>, later ones
  overwriting.
\<close>

definition turnMapOf :: "ChatMessage list \<Rightarrow> (jsstring \<rightharpoonup> jsstring)" where
  "turnMapOf messages =
     foldl (\<lambda>nextMap message.
              case turnId message of
                None \<Rightarrow> nextMap
              | Some t \<Rightarrow>
                  if role message = Assistant \<and> t \<noteq> [] then nextMap(t \<mapsto> id_m message)
                  else nextMap)
           Map.empty messages"

text \<open>
  The test hook \<^verbatim>\<open>duplicateTestConfig ?? window.__NABOKOV_TEST_FORCE_DUPLICATE__\<close>:
  nothing (or \<^verbatim>\<open>false\<close>), \<^verbatim>\<open>true\<close>, or an object with \<^verbatim>\<open>mockContent\<close>, the
  truthiness of \<^verbatim>\<open>persist\<close>, and \<^verbatim>\<open>duplicate\<close>. In production it is nothing.
\<close>

datatype DuplicateTestConfig =
  ConfigNone
| ConfigTrue
| ConfigObject (mockContent: "jsstring option") (persist: bool) (duplicate: "bool option")

text \<open>
  Arrays are mutable and shared, so they live in a store: \<open>heap\<close> maps an array
  reference to its contents and \<open>nextRef\<close> is the next unused reference. \<open>messages\<close> is
  the array of the React state \<^verbatim>\<open>messages\<close> and of \<^verbatim>\<open>messagesRef.current\<close> (every
  assignment of the source sets both); \<open>sessionMessages\<close> is the array
  \<^verbatim>\<open>session.messages\<close> refers to.
\<close>

record ChatState =
  heap :: "nat \<Rightarrow> ChatMessage list"
  nextRef :: nat
  messages :: nat
  sessionMessages :: nat
  assistantTurnMap :: "jsstring \<rightharpoonup> jsstring"
  clearPreviousAssistant :: bool
  duplicateTestConfig :: DuplicateTestConfig
  isMountedChat :: bool

text \<open>The list the window shows.\<close>

definition messageList :: "ChatState \<Rightarrow> ChatMessage list" where
  "messageList st = heap st (messages st)"

text \<open>A new array with the given contents; the result is the store and the reference.\<close>

definition newArray :: "ChatMessage list \<Rightarrow> ChatState \<Rightarrow> ChatState \<times> nat" where
  "newArray contents st =
     (st\<lparr>heap := (heap st)(nextRef st := contents), nextRef := Suc (nextRef st)\<rparr>, nextRef st)"

text \<open>
  What the environment supplies to one turn: the values of \<^verbatim>\<open>Date.now()\<close> and the
  generated ids.
\<close>

record TurnEnv =
  userTimestamp :: nat
  forcedId :: jsstring
  forcedTimestamp :: nat
  assistantMessageId :: jsstring
  assistantTimestamp :: nat
  errorId :: jsstring
  errorTimestamp :: nat

text \<open>
  How the awaited calls of one turn end. \<^verbatim>\<open>addMessageToChat\<close> and \<^verbatim>\<open>chatWithPage\<close> are
  imported services: \<open>PersistUserFailed\<close> is a raise before the user message is appended
  (the dynamic import or \<^verbatim>\<open>addMessageToChat(session, 'user', ...)\<close>), \<open>BackendFailed\<close> a
  raise of \<^verbatim>\<open>chatWithPage\<close> or of the stream, \<open>StreamCompleted chunks ok\<close> a stream
  that ends normally after \<open>chunks\<close>, where \<open>ok\<close> tells whether the later
  \<^verbatim>\<open>addMessageToChat(session, 'assistant', ...)\<close> returns. The services are taken not to
  touch the arrays this component holds.
\<close>

datatype TurnOutcome =
  PersistUserFailed
| BackendFailed
| StreamCompleted "jsstring list" bool

text \<open>
  The \<^verbatim>\<open>catch\<close> block: one assistant message without \<^verbatim>\<open>turnId\<close> is appended to the
  current list through \<^verbatim>\<open>dedupeMessagesById\<close>; nothing happens when unmounted. The
  render that follows rebuilds the turn map. The text starts with the cross mark U+274C.
\<close>

definition errorContent :: jsstring where
  "errorContent =
     [0x274C] @ js '' Error: Could not connect to API. Please check your backend is running or API key is configured.''"

definition errorMessageEntry :: "TurnEnv \<Rightarrow> ChatMessage" where
  "errorMessageEntry env =
     \<lparr>id_m = errorId env, role = Assistant, content = errorContent,
      timestamp = errorTimestamp env, turnId = None, images = None, thinking_m = None\<rparr>"

definition catchError :: "TurnEnv \<Rightarrow> ChatState \<Rightarrow> ChatState" where
  "catchError env st =
     (if \<not> isMountedChat st then st
      else
        let next = dedupeMessagesById (messageList st @ [errorMessageEntry env]);
            (st1, r) = newArray next st
        in st1\<lparr>messages := r, assistantTurnMap := turnMapOf next\<rparr>)"

text \<open>
  Lines 957 to 1017: the user message is appended through \<^verbatim>\<open>dedupeMessagesById\<close>, and
  the new array becomes the state, \<^verbatim>\<open>messagesRef.current\<close> and
  \<^verbatim>\<open>session.messages\<close> at once. The result carries the reference held by the local
  \<^verbatim>\<open>newMessages\<close>.
\<close>

definition contentForStorage :: "jsstring \<Rightarrow> PendingImage list \<Rightarrow> jsstring" where
  "contentForStorage userMessage imgs =
     (let trimmedMessage = trim userMessage
      in if trimmedMessage \<noteq> [] then trimmedMessage
         else if length imgs > 0 then js ''(Image attached)'' else [])"

definition userMessageEntry :: "TurnEnv \<Rightarrow> jsstring \<Rightarrow> jsstring \<Rightarrow> PendingImage list \<Rightarrow> ChatMessage" where
  "userMessageEntry env t userMessage imgs =
     \<lparr>id_m = t, role = User, content = contentForStorage userMessage imgs,
      timestamp = userTimestamp env, turnId = Some t,
      images = (if length imgs > 0 then Some imgs else None), thinking_m = None\<rparr>"

definition appendUserMessage ::
  "TurnEnv \<Rightarrow> jsstring \<Rightarrow> jsstring \<Rightarrow> PendingImage list \<Rightarrow> ChatState \<Rightarrow> ChatState \<times> nat" where
  "appendUserMessage env t userMessage imgs st =
     (let newMessages = dedupeMessagesById (messageList st @ [userMessageEntry env t userMessage imgs]);
          (st1, r) = newArray newMessages st
      in (st1\<lparr>messages := r, sessionMessages := r, assistantTurnMap := turnMapOf newMessages\<rparr>, r))"

text \<open>
  \<^verbatim>\<open>messages.findIndex(message => message.id === id)\<close>, with \<open>None\<close> for \<open>-1\<close>.
\<close>

fun findIndexById :: "jsstring \<Rightarrow> ChatMessage list \<Rightarrow> nat option" where
  "findIndexById i [] = None"
| "findIndexById i (message # rest) =
     (if id_m message = i then Some 0 else map_option Suc (findIndexById i rest))"

text \<open>
  The in-place write \<^verbatim>\<open>session.messages[sessionIndex] = replacement\<close> of the two
  update branches, done when \<^verbatim>\<open>sessionIndex >= 0\<close>.
\<close>

definition writeSessionMessage :: "jsstring \<Rightarrow> (ChatMessage \<Rightarrow> ChatMessage) \<Rightarrow> ChatState \<Rightarrow> ChatState" where
  "writeSessionMessage i replacement st =
     (let sessionArray = heap st (sessionMessages st)
      in case findIndexById i sessionArray of
           None \<Rightarrow> st
         | Some sessionIndex \<Rightarrow>
             st\<lparr>heap := (heap st)(sessionMessages st :=
                   sessionArray[sessionIndex := replacement (sessionArray ! sessionIndex)])\<rparr>)"

text \<open>
  Lines 1226 to 1228: the final list becomes \<^verbatim>\<open>session.messages\<close>, the state and
  \<^verbatim>\<open>messagesRef.current\<close>; the render that follows rebuilds the turn map.
\<close>

definition storeFinalMessages :: "ChatMessage list \<Rightarrow> ChatState \<Rightarrow> ChatState" where
  "storeFinalMessages finalMessages st =
     (let (st1, r) = newArray finalMessages st
      in st1\<lparr>messages := r, sessionMessages := r, assistantTurnMap := turnMapOf finalMessages\<rparr>)"

text \<open>
  The content the partition is made of: the streamed text, or the test hook's
  \<^verbatim>\<open>mockContent\<close> when the streamed text is blank.
\<close>

definition effectiveContent :: "DuplicateTestConfig \<Rightarrow> jsstring list \<Rightarrow> jsstring" where
  "effectiveContent testDuplicateConfig chunks =
     (case testDuplicateConfig of
        ConfigObject (Some mock) p d \<Rightarrow> if trim (concat chunks) = [] then mock else concat chunks
      | _ \<Rightarrow> concat chunks)"

definition assistantContentForStorage :: "jsstring \<Rightarrow> jsstring list \<Rightarrow> jsstring" where
  "assistantContentForStorage assistantContent deltaHistory =
     (let assistantAnswerRaw = answer (separateAssistantResponse assistantContent deltaHistory)
      in if length (trim assistantAnswerRaw) > 0 then assistantAnswerRaw
         else trimStart assistantContent)"

definition assistantThinkingForStorage :: "jsstring \<Rightarrow> jsstring list \<Rightarrow> jsstring option" where
  "assistantThinkingForStorage assistantContent deltaHistory =
     (let separated = separateAssistantResponse assistantContent deltaHistory
      in case thinking separated of
           None \<Rightarrow> None
         | Some assistantThinkingRaw \<Rightarrow>
             if length (trim (answer separated)) > 0 \<and> assistantThinkingRaw \<noteq> []
             then Some (trim assistantThinkingRaw) else None)"

definition shouldForceDuplicate :: "DuplicateTestConfig \<Rightarrow> bool" where
  "shouldForceDuplicate testDuplicateConfig =
     (case testDuplicateConfig of
        ConfigNone \<Rightarrow> False
      | ConfigTrue \<Rightarrow> True
      | ConfigObject m p d \<Rightarrow> d \<noteq> Some False)"

text \<open>
  Lines 1066 to 1073: with the preference on, the last assistant message is spliced out
  of \<^verbatim>\<open>session.messages\<close>, in place.
\<close>

definition spliceSessionMessages :: "ChatState \<Rightarrow> ChatState" where
  "spliceSessionMessages st =
     (if clearPreviousAssistant st \<and> length (heap st (sessionMessages st)) > 0
      then st\<lparr>heap := (heap st)(sessionMessages st :=
              removeLastAssistant (heap st (sessionMessages st)))\<rparr>
      else st)"

text \<open>
  Lines 1083 to 1094: with the preference on, \<^verbatim>\<open>newMessages\<close> is cloned and the last
  assistant message of the clone removed; otherwise \<^verbatim>\<open>baseMessages\<close> is
  \<^verbatim>\<open>newMessages\<close>.
\<close>

definition baseMessagesOf :: "nat \<Rightarrow> ChatState \<Rightarrow> ChatMessage list" where
  "baseMessagesOf newMessages st =
     (if clearPreviousAssistant st then removeLastAssistant (heap st newMessages)
      else heap st newMessages)"

definition assistantEntry ::
  "jsstring \<Rightarrow> nat \<Rightarrow> jsstring \<Rightarrow> jsstring \<Rightarrow> jsstring option \<Rightarrow> ChatMessage" where
  "assistantEntry i ts t stored storedThinking =
     \<lparr>id_m = i, role = Assistant, content = stored, timestamp = ts, turnId = Some t,
      images = None, thinking_m = storedThinking\<rparr>"

text \<open>
  The spread \<^verbatim>\<open>{ ...message, content, thinking, timestamp, turnId }\<close> of the two
  update branches.
\<close>

definition updateEntry ::
  "TurnEnv \<Rightarrow> jsstring \<Rightarrow> jsstring \<Rightarrow> jsstring option \<Rightarrow> ChatMessage \<Rightarrow> ChatMessage" where
  "updateEntry env t stored storedThinking message =
     message\<lparr>content := stored, thinking_m := storedThinking,
             timestamp := assistantTimestamp env, turnId := Some t\<rparr>"

text \<open>
  Lines 1118 to 1139, the forced duplicate of the test hook: the entry is appended to
  \<^verbatim>\<open>baseMessages\<close>, the turn map points to it, and the hook is cleared unless it
  persists.
\<close>

definition forceDuplicate ::
  "TurnEnv \<Rightarrow> jsstring \<Rightarrow> jsstring \<Rightarrow> jsstring option \<Rightarrow> ChatMessage list \<times> ChatState
     \<Rightarrow> ChatMessage list \<times> ChatState" where
  "forceDuplicate env t stored storedThinking = (\<lambda>(baseMessages, st).
     if shouldForceDuplicate (duplicateTestConfig st)
     then (baseMessages @ [assistantEntry (forcedId env) (forcedTimestamp env) t stored storedThinking],
           st\<lparr>assistantTurnMap := (assistantTurnMap st)(t \<mapsto> forcedId env),
              duplicateTestConfig :=
                (case duplicateTestConfig st of
                   ConfigObject m True d \<Rightarrow> duplicateTestConfig st
                 | _ \<Rightarrow> ConfigNone)\<rparr>)
     else (baseMessages, st))"

text \<open>
  Lines 1143 to 1146: the assistant message already recorded for the turn, when its id
  is truthy and \<^verbatim>\<open>findIndex\<close> finds it in \<^verbatim>\<open>baseMessages\<close>.
\<close>

definition existingAssistant :: "jsstring \<Rightarrow> ChatMessage list \<Rightarrow> ChatState \<Rightarrow> jsstring option" where
  "existingAssistant t baseMessages st =
     (case assistantTurnMap st t of
        None \<Rightarrow> None
      | Some existingAssistantId \<Rightarrow>
          if existingAssistantId \<noteq> [] \<and> findIndexById existingAssistantId baseMessages \<noteq> None
          then Some existingAssistantId else None)"

text \<open>
  Lines 1148 to 1174: the existing message is updated in place of a new one. When \<open>ok\<close>
  is false the awaited \<^verbatim>\<open>addMessageToChat\<close> raises and control passes to the
  \<^verbatim>\<open>catch\<close> block.
\<close>

definition updateExisting ::
  "TurnEnv \<Rightarrow> jsstring \<Rightarrow> jsstring \<Rightarrow> jsstring option \<Rightarrow> jsstring \<Rightarrow> ChatMessage list \<Rightarrow> bool
     \<Rightarrow> ChatState \<Rightarrow> ChatState" where
  "updateExisting env t stored storedThinking existingAssistantId baseMessages ok st =
     (let updatedMessages =
            map (\<lambda>message. if id_m message = existingAssistantId
                            then updateEntry env t stored storedThinking message else message)
              baseMessages;
          finalMessages = dedupeMessagesById updatedMessages;
          st1 = writeSessionMessage existingAssistantId
                  (\<lambda>old. case find (\<lambda>message. id_m message = existingAssistantId) finalMessages of
                            None \<Rightarrow> old
                          | Some found \<Rightarrow> found) st
      in if ok then storeFinalMessages finalMessages st1 else catchError env st1)"

text \<open>
  Lines 1177 to 1184: the last message of \<^verbatim>\<open>baseMessages\<close> is an assistant message
  whose trimmed content is not empty and equals the new answer or the new text.
\<close>

definition duplicateOfLast :: "jsstring \<Rightarrow> jsstring \<Rightarrow> ChatMessage list \<Rightarrow> bool" where
  "duplicateOfLast normalisedAssistant assistantContent baseMessages =
     (baseMessages \<noteq> [] \<and> role (last baseMessages) = Assistant
      \<and> trim (content (last baseMessages)) \<noteq> []
      \<and> (trim (content (last baseMessages)) = normalisedAssistant
         \<or> trim (content (last baseMessages)) = trim assistantContent))"

text \<open>Lines 1185 to 1202: the last message is updated in place of a new one.\<close>

definition updateLast ::
  "TurnEnv \<Rightarrow> jsstring \<Rightarrow> jsstring \<Rightarrow> jsstring option \<Rightarrow> ChatMessage list \<Rightarrow> ChatState \<Rightarrow> ChatState" where
  "updateLast env t stored storedThinking baseMessages st =
     (let lastMessage = last baseMessages;
          updatedLast = updateEntry env t stored storedThinking lastMessage;
          finalMessages = dedupeMessagesById (butlast baseMessages @ [updatedLast]);
          st1 = writeSessionMessage (id_m lastMessage) (\<lambda>old. updatedLast)
                  (st\<lparr>assistantTurnMap := (assistantTurnMap st)(t \<mapsto> id_m updatedLast)\<rparr>)
      in storeFinalMessages finalMessages st1)"

text \<open>Lines 1204 to 1222: a new assistant message is appended.\<close>

definition appendAssistant ::
  "TurnEnv \<Rightarrow> jsstring \<Rightarrow> jsstring \<Rightarrow> jsstring option \<Rightarrow> ChatMessage list \<Rightarrow> bool \<Rightarrow> ChatState
     \<Rightarrow> ChatState" where
  "appendAssistant env t stored storedThinking baseMessages ok st =
     (let assistantMessage =
            assistantEntry (assistantMessageId env) (assistantTimestamp env) t stored storedThinking;
          finalMessages = dedupeMessagesById (baseMessages @ [assistantMessage]);
          st1 = st\<lparr>assistantTurnMap := (assistantTurnMap st)(t \<mapsto> assistantMessageId env)\<rparr>
      in if ok then storeFinalMessages finalMessages st1 else catchError env st1)"

text \<open>
  Lines 1058 to 1237, after the stream has ended normally. \<open>newMessages\<close> is the
  reference held by the local of that name; \<^verbatim>\<open>session.messages\<close> is spliced in place
  before \<^verbatim>\<open>newMessages\<close> is cloned, both through the store. The received fragments are
  \<^verbatim>\<open>streamingDeltaHistoryRef.current\<close>. An answer that is blank ends the turn with
  nothing stored.
\<close>

definition completeStream ::
  "TurnEnv \<Rightarrow> jsstring \<Rightarrow> nat \<Rightarrow> jsstring list \<Rightarrow> bool \<Rightarrow> ChatState \<Rightarrow> ChatState" where
  "completeStream env t newMessages chunks ok st =
     (if \<not> isMountedChat st then st
      else
        let st1 = spliceSessionMessages st;
            assistantContent = effectiveContent (duplicateTestConfig st1) chunks;
            baseMessages0 = baseMessagesOf newMessages st1;
            stored = assistantContentForStorage assistantContent chunks;
            normalisedAssistant = trim stored;
            storedThinking = assistantThinkingForStorage assistantContent chunks
        in if normalisedAssistant = [] then st1
           else
             let (baseMessages, st2) = forceDuplicate env t stored storedThinking (baseMessages0, st1)
             in case existingAssistant t baseMessages st2 of
                  Some existingAssistantId \<Rightarrow>
                    updateExisting env t stored storedThinking existingAssistantId baseMessages ok st2
                | None \<Rightarrow>
                    if duplicateOfLast normalisedAssistant assistantContent baseMessages
                    then updateLast env t stored storedThinking baseMessages st2
                    else appendAssistant env t stored storedThinking baseMessages ok st2)"

text \<open>
  \<^verbatim>\<open>sendMessageToAPI(userMessage, images, messageId)\<close> on the message list, from its
  call to the end of its \<^verbatim>\<open>try\<close> or \<^verbatim>\<open>catch\<close> block; \<open>t\<close> is the \<^verbatim>\<open>messageId\<close> the
  callers pass, which becomes \<^verbatim>\<open>turnId\<close>.
\<close>

definition sendMessageToAPI ::
  "TurnEnv \<Rightarrow> jsstring \<Rightarrow> jsstring \<Rightarrow> PendingImage list \<Rightarrow> TurnOutcome \<Rightarrow> ChatState \<Rightarrow> ChatState" where
  "sendMessageToAPI env t userMessage imgs outcome st =
     (case outcome of
        PersistUserFailed \<Rightarrow> catchError env st
      | BackendFailed \<Rightarrow> catchError env (fst (appendUserMessage env t userMessage imgs st))
      | StreamCompleted chunks ok \<Rightarrow>
          (let (st1, newMessages) = appendUserMessage env t userMessage imgs st
           in completeStream env t newMessages chunks ok st1))"

subsection \<open>The invariants of the message list\<close>

text \<open>No two messages share an id.\<close>

definition idsDistinct :: "ChatMessage list \<Rightarrow> bool" where
  "idsDistinct ms = distinct (map id_m ms)"

text \<open>The assistant messages that carry a given turn id.\<close>

definition assistantsOfTurn :: "jsstring \<Rightarrow> ChatMessage list \<Rightarrow> ChatMessage list" where
  "assistantsOfTurn u ms = filter (\<lambda>m. role m = Assistant \<and> turnId m = Some u) ms"

text \<open>At most one assistant message per turn id.\<close>

definition oneAssistantPerTurn :: "ChatMessage list \<Rightarrow> bool" where
  "oneAssistantPerTurn ms = (\<forall>u. length (assistantsOfTurn u ms) \<le> 1)"

subsection \<open>An example conversation\<close>

definition exampleEnv :: TurnEnv where
  "exampleEnv =
     \<lparr>userTimestamp = 5, forcedId = js ''forced-duplicate-1'', forcedTimestamp = 6,
      assistantMessageId = js ''a3'', assistantTimestamp = 7,
      errorId = js ''e3'', errorTimestamp = 8\<rparr>"

definition userMsg :: "string \<Rightarrow> string \<Rightarrow> nat \<Rightarrow> ChatMessage" where
  "userMsg i text ts =
     \<lparr>id_m = js i, role = User, content = js text, timestamp = ts, turnId = Some (js i),
      images = None, thinking_m = None\<rparr>"

definition assistantMsg :: "string \<Rightarrow> string \<Rightarrow> string \<Rightarrow> nat \<Rightarrow> ChatMessage" where
  "assistantMsg i t text ts =
     \<lparr>id_m = js i, role = Assistant, content = js text, timestamp = ts, turnId = Some (js t),
      images = None, thinking_m = None\<rparr>"

text \<open>
  A mounted window whose session holds two finished turns, in one array shared by the
  state and the session.
\<close>

definition twoTurns :: "ChatMessage list" where
  "twoTurns =
     [userMsg ''u1'' ''first'' 1, assistantMsg ''a1'' ''u1'' ''one'' 2,
      userMsg ''u2'' ''second'' 3, assistantMsg ''a2'' ''u2'' ''two'' 4]"

definition twoTurnsState :: "bool \<Rightarrow> ChatState" where
  "twoTurnsState replaceLast =
     \<lparr>heap = (\<lambda>r. [])(0 := twoTurns), nextRef = 1, messages = 0, sessionMessages = 0,
      assistantTurnMap = turnMapOf twoTurns, clearPreviousAssistant = replaceLast,
      duplicateTestConfig = ConfigNone, isMountedChat = True\<rparr>"

text \<open>
  What one turn with turn id \<open>t\<close> may leave in the list, given the list \<open>L\<close> before: a
  message of \<open>L\<close>, a message that is not an assistant message or has no turn id, or a
  message of this turn with the id \<open>i\<close>.
\<close>

definition turnMember :: "ChatMessage list \<Rightarrow> jsstring \<Rightarrow> jsstring \<Rightarrow> ChatMessage \<Rightarrow> bool" where
  "turnMember L t i m =
     (m \<in> set L \<or> role m \<noteq> Assistant \<or> turnId m = None \<or> (turnId m = Some t \<and> id_m m = i))"

text \<open>The turn ids of the assistant messages of a list, in order.\<close>

definition assistantTurnIds :: "ChatMessage list \<Rightarrow> jsstring list" where
  "assistantTurnIds ms =
     List.map_filter (\<lambda>m. if role m = Assistant then turnId m else None) ms"

section \<open>Dispatch queue\<close>

text \<open>
  \<^verbatim>\<open>QueuedMessage\<close>. The source's \<^verbatim>\<open>id\<close>, \<^verbatim>\<open>content\<close> and \<^verbatim>\<open>images\<close> are \<open>id_q\<close>,
  \<open>content_q\<close> and \<open>images_q\<close> here.
\<close>

record QueuedMessage =
  id_q :: jsstring
  content_q :: jsstring
  images_q :: "PendingImage list option"
  createdAt :: nat
  messageId :: jsstring

text \<open>
  A call of \<^verbatim>\<open>sendMessageToAPI\<close> that has not reached the end of its \<^verbatim>\<open>finally\<close>
  block yet: its arguments, who awaits it (\<^verbatim>\<open>handleSendMessage\<close> or
  \<^verbatim>\<open>processQueue\<close>), and whether it has appended the user message, with the array
  reference its local \<^verbatim>\<open>newMessages\<close> then holds.
\<close>

datatype Origin = Direct | Queued

datatype Phase = Started | Streaming nat

record Turn =
  turnMessageId :: jsstring
  turnContent :: jsstring
  turnImages :: "PendingImage list"
  origin :: Origin
  phase :: Phase

text \<open>
  \<^verbatim>\<open>lastSubmittedMessageRef.current\<close>. The signature is
  \<^verbatim>\<open>JSON.stringify({ content, images: dataURLs })\<close>, kept as the pair it encodes.
\<close>

record Submission =
  signature :: "jsstring \<times> jsstring list"
  submittedAt :: nat
  submittedId :: jsstring

text \<open>
  The window between events of the event loop: the message list with its store, the
  queue and the flags (a ref and the state it mirrors are one field), and what the event
  loop still holds: the calls of \<^verbatim>\<open>sendMessageToAPI\<close> in flight and the number of
  pending \<^verbatim>\<open>setTimeout\<close> callbacks of \<^verbatim>\<open>processQueue\<close>. \<open>dispatched\<close> records the
  message ids in the order in which \<^verbatim>\<open>sendMessageToAPI\<close> was called.
\<close>

record WindowSession =
  chat :: ChatState
  messageQueue :: "QueuedMessage list"
  isProcessingQueue :: bool
  isSending :: bool
  isStreaming :: bool
  activeQueuedId :: "jsstring option"
  queueExpanded :: bool
  lastSubmittedMessage :: "Submission option"
  inFlight :: "Turn list"
  dispatched :: "jsstring list"
  pendingTimers :: nat

text \<open>
  The synchronous start of \<^verbatim>\<open>sendMessageToAPI\<close>, up to its first \<^verbatim>\<open>await\<close>:
  \<^verbatim>\<open>isSendingRef.current = true\<close>.
\<close>

definition startTurn :: "Turn \<Rightarrow> WindowSession \<Rightarrow> WindowSession" where
  "startTurn turn s =
     s\<lparr>isSending := True, inFlight := inFlight s @ [turn],
       dispatched := dispatched s @ [turnMessageId turn]\<rparr>"

text \<open>
  \<^verbatim>\<open>processQueue()\<close> up to its \<^verbatim>\<open>await sendMessageToAPI(...)\<close>: nothing when
  unmounted, when the queue is empty or when a queue run is in progress; otherwise the
  head of the queue is taken off and sent.
\<close>

definition processQueue :: "WindowSession \<Rightarrow> WindowSession" where
  "processQueue s =
     (if \<not> isMountedChat (chat s) then s
      else if messageQueue s = [] \<or> isProcessingQueue s then s
      else case messageQueue s of
             [] \<Rightarrow> s
           | nextMessage # rest \<Rightarrow>
               startTurn
                 \<lparr>turnMessageId = messageId nextMessage, turnContent = content_q nextMessage,
                  turnImages = (case images_q nextMessage of None \<Rightarrow> [] | Some imgs \<Rightarrow> imgs),
                  origin = Queued, phase = Started\<rparr>
                 (s\<lparr>messageQueue := rest, isProcessingQueue := True,
                    activeQueuedId := Some (id_q nextMessage)\<rparr>))"

text \<open>
  \<^verbatim>\<open>handleSendMessage()\<close> up to its \<^verbatim>\<open>await sendMessageToAPI(...)\<close>, for the input
  value and pending images of the moment; \<open>now\<close>, \<open>newMessageId\<close> and \<open>queuedId\<close> are
  \<^verbatim>\<open>Date.now()\<close> and the two generated ids.
\<close>

definition handleSendMessage ::
  "jsstring \<Rightarrow> PendingImage list \<Rightarrow> nat \<Rightarrow> jsstring \<Rightarrow> jsstring \<Rightarrow> WindowSession \<Rightarrow> WindowSession" where
  "handleSendMessage inputValue pendingImages now newMessageId queuedId s =
     (if trim inputValue = [] \<and> length pendingImages = 0 then s
      else
        let trimmed = trim inputValue;
            content = (if trimmed \<noteq> [] then trimmed
                       else if length pendingImages > 0 then js ''(Image attached)'' else []);
            imagesToSend = pendingImages;
            sig = (content, map dataURL imagesToSend)
        in if (case lastSubmittedMessage s of
                 None \<Rightarrow> False
               | Some lastSubmission \<Rightarrow>
                   signature lastSubmission = sig
                   \<and> int now - int (submittedAt lastSubmission) < 1500)
           then s
           else
             let queuedMessage =
                   \<lparr>id_q = queuedId, content_q = content,
                    images_q = (if length imagesToSend > 0 then Some imagesToSend else None),
                    createdAt = now, messageId = newMessageId\<rparr>;
                 s1 = s\<lparr>lastSubmittedMessage :=
                          Some \<lparr>signature = sig, submittedAt = now, submittedId = newMessageId\<rparr>\<rparr>
             in if isStreaming s1 \<or> isProcessingQueue s1 \<or> isSending s1
                then s1\<lparr>messageQueue :=
                           (if \<exists>item \<in> set (messageQueue s1). messageId item = newMessageId
                            then messageQueue s1
                            else messageQueue s1 @ [queuedMessage]),
                         queueExpanded := True\<rparr>
                else startTurn
                       \<lparr>turnMessageId = newMessageId, turnContent = content,
                        turnImages = (case images_q queuedMessage of None \<Rightarrow> [] | Some imgs \<Rightarrow> imgs),
                        origin = Direct, phase = Started\<rparr> s1)"

text \<open>\<^verbatim>\<open>handleRemoveQueuedMessage(id)\<close> and \<^verbatim>\<open>handleClearQueue()\<close>.\<close>

definition handleRemoveQueuedMessage :: "jsstring \<Rightarrow> WindowSession \<Rightarrow> WindowSession" where
  "handleRemoveQueuedMessage i s =
     s\<lparr>messageQueue := filter (\<lambda>message. id_q message \<noteq> i) (messageQueue s)\<rparr>"

definition handleClearQueue :: "WindowSession \<Rightarrow> WindowSession" where
  "handleClearQueue s = s\<lparr>messageQueue := [], activeQueuedId := None\<rparr>"

text \<open>
  Lines 996 to 1017 of a call in flight: the user message is appended and
  \<^verbatim>\<open>setIsStreaming(true)\<close> runs.
\<close>

definition beginStreaming :: "TurnEnv \<Rightarrow> Turn \<Rightarrow> WindowSession \<Rightarrow> WindowSession" where
  "beginStreaming env turn s =
     (let (chat1, newMessages) =
            appendUserMessage env (turnMessageId turn) (turnContent turn) (turnImages turn) (chat s)
      in s\<lparr>chat := chat1, isStreaming := True,
           inFlight := map (\<lambda>other. if other = turn then turn\<lparr>phase := Streaming newMessages\<rparr> else other)
                         (inFlight s)\<rparr>)"

text \<open>
  The rest of the \<^verbatim>\<open>try\<close> block or the \<^verbatim>\<open>catch\<close> block of a call in flight, by how
  its awaited calls end; \<open>None\<close> when the outcome does not fit the phase of the call.
\<close>

definition settleTurn :: "TurnEnv \<Rightarrow> Turn \<Rightarrow> TurnOutcome \<Rightarrow> ChatState \<Rightarrow> ChatState option" where
  "settleTurn env turn outcome c =
     (case (phase turn, outcome) of
        (Started, PersistUserFailed) \<Rightarrow> Some (catchError env c)
      | (Streaming newMessages, BackendFailed) \<Rightarrow> Some (catchError env c)
      | (Streaming newMessages, StreamCompleted chunks ok) \<Rightarrow>
          Some (completeStream env (turnMessageId turn) newMessages chunks ok c)
      | _ \<Rightarrow> None)"

text \<open>
  The \<^verbatim>\<open>finally\<close> block of \<^verbatim>\<open>sendMessageToAPI\<close>: the call is over,
  \<^verbatim>\<open>isSendingRef.current = false\<close>, and when mounted \<^verbatim>\<open>setIsStreaming(false)\<close> and,
  if the queue is not empty and no queue run is in progress, \<^verbatim>\<open>processQueue()\<close>.
\<close>

definition finallyBlock :: "Turn \<Rightarrow> WindowSession \<Rightarrow> WindowSession" where
  "finallyBlock turn s =
     (let s1 = s\<lparr>isSending := False, inFlight := remove1 turn (inFlight s)\<rparr>
      in if \<not> isMountedChat (chat s1) then s1
         else
           let s2 = s1\<lparr>isStreaming := False\<rparr>
           in if length (messageQueue s2) > 0 \<and> \<not> isProcessingQueue s2 then processQueue s2
              else s2)"

text \<open>
  What runs when the awaited call returns. In \<^verbatim>\<open>handleSendMessage\<close>: the last
  submission is stamped again and, if the queue is not empty, \<^verbatim>\<open>processQueue()\<close> is
  called. In \<^verbatim>\<open>processQueue\<close>: the queue run ends and, if the queue is not empty, a
  timer of 100 ms is set for the next \<^verbatim>\<open>processQueue()\<close>.
\<close>

definition afterAwait :: "Turn \<Rightarrow> nat \<Rightarrow> WindowSession \<Rightarrow> WindowSession" where
  "afterAwait turn now s =
     (case origin turn of
        Direct \<Rightarrow>
          let s1 = s\<lparr>lastSubmittedMessage :=
                       Some \<lparr>signature = (turnContent turn, map dataURL (turnImages turn)),
                             submittedAt = now, submittedId = turnMessageId turn\<rparr>\<rparr>
          in if length (messageQueue s1) > 0 then processQueue s1 else s1
      | Queued \<Rightarrow>
          let s1 = s\<lparr>activeQueuedId := None, isProcessingQueue := False\<rparr>
          in if length (messageQueue s1) > 0 then s1\<lparr>pendingTimers := Suc (pendingTimers s1)\<rparr>
             else s1)"

text \<open>
  The events of the event loop: a submission, a call in flight reaching its backend
  request, a call in flight ending, a timer firing, and the two edits of the queue. An
  event that cannot happen in a state gives \<open>None\<close>.
\<close>

datatype Event =
  Submit jsstring "PendingImage list" nat jsstring jsstring
| Begin TurnEnv jsstring
| Finish TurnEnv jsstring TurnOutcome nat
| Timer
| RemoveQueued jsstring
| ClearQueue

definition turnInFlight :: "jsstring \<Rightarrow> WindowSession \<Rightarrow> Turn option" where
  "turnInFlight mid s = find (\<lambda>turn. turnMessageId turn = mid) (inFlight s)"

definition step :: "Event \<Rightarrow> WindowSession \<Rightarrow> WindowSession option" where
  "step event s =
     (case event of
        Submit inputValue pendingImages now newMessageId queuedId \<Rightarrow>
          Some (handleSendMessage inputValue pendingImages now newMessageId queuedId s)
      | Begin env mid \<Rightarrow>
          (case turnInFlight mid s of
             None \<Rightarrow> None
           | Some turn \<Rightarrow> if phase turn = Started then Some (beginStreaming env turn s) else None)
      | Finish env mid outcome now \<Rightarrow>
          (case turnInFlight mid s of
             None \<Rightarrow> None
           | Some turn \<Rightarrow>
               (case settleTurn env turn outcome (chat s) of
                  None \<Rightarrow> None
                | Some chat1 \<Rightarrow> Some (afterAwait turn now (finallyBlock turn (s\<lparr>chat := chat1\<rparr>)))))
      | Timer \<Rightarrow>
          (if pendingTimers s = 0 then None
           else Some (processQueue (s\<lparr>pendingTimers := pendingTimers s - 1\<rparr>)))
      | RemoveQueued i \<Rightarrow> Some (handleRemoveQueuedMessage i s)
      | ClearQueue \<Rightarrow> Some (handleClearQueue s))"

fun run :: "Event list \<Rightarrow> WindowSession \<Rightarrow> WindowSession option" where
  "run [] s = Some s"
| "run (event # rest) s = (case step event s of None \<Rightarrow> None | Some s1 \<Rightarrow> run rest s1)"

subsection \<open>An example session\<close>

text \<open>A freshly opened, mounted window without history.\<close>

definition emptyChat :: ChatState where
  "emptyChat =
     \<lparr>heap = (\<lambda>r. []), nextRef = 1, messages = 0, sessionMessages = 0,
      assistantTurnMap = Map.empty, clearPreviousAssistant = False,
      duplicateTestConfig = ConfigNone, isMountedChat = True\<rparr>"

definition initialSession :: WindowSession where
  "initialSession =
     \<lparr>chat = emptyChat, messageQueue = [], isProcessingQueue = False, isSending = False,
      isStreaming = False, activeQueuedId = None, queueExpanded = False,
      lastSubmittedMessage = None, inFlight = [], dispatched = [], pendingTimers = 0\<rparr>"

definition envFor :: "string \<Rightarrow> TurnEnv" where
  "envFor n =
     \<lparr>userTimestamp = 0, forcedId = js (''forced-'' @ n), forcedTimestamp = 0,
      assistantMessageId = js (''answer-'' @ n), assistantTimestamp = 0,
      errorId = js (''error-'' @ n), errorTimestamp = 0\<rparr>"

text \<open>
  Four submissions A, B, C, D. A is sent at once; B and C are submitted while A is in
  flight; A and then B finish with an answer; D is submitted within the 100 ms before the
  timer set at the end of B's queue run fires; then the timer fires.
\<close>

definition raceTrace :: "Event list" where
  "raceTrace =
     [Submit (js ''A'') [] 0 (js ''mA'') (js ''qA''),
      Begin (envFor ''A'') (js ''mA''),
      Submit (js ''B'') [] 10 (js ''mB'') (js ''qB''),
      Submit (js ''C'') [] 20 (js ''mC'') (js ''qC''),
      Finish (envFor ''A'') (js ''mA'') (StreamCompleted [js ''answer A''] True) 1000,
      Begin (envFor ''B'') (js ''mB''),
      Finish (envFor ''B'') (js ''mB'') (StreamCompleted [js ''answer B''] True) 2000,
      Submit (js ''D'') [] 2050 (js ''mD'') (js ''qD''),
      Timer]"



section \<open>Theorems\<close>

text \<open>
  C9. The collapse actions are toggles: the rectangle action lands on rectangle from
  expanded or square and returns to expanded from rectangle; the square action lands on
  square from expanded or rectangle and returns to expanded from square; the expand action
  returns to expanded from either collapsed state. No action touches the stored
  width/height; a collapsed window is not resizable; and after the cycles
  expanded, rectangle, expanded and expanded, square, expanded the stored and the
  displayed size are exactly the size stored before collapsing.
\<close>

theorem collapse_toggle_cycle:
  "collapseState (handleCollapseToRectangle (w\<lparr>collapseState := Expanded\<rparr>)) = Rectangle
   \<and> collapseState (handleCollapseToRectangle (w\<lparr>collapseState := Square\<rparr>)) = Rectangle
   \<and> collapseState (handleCollapseToRectangle (w\<lparr>collapseState := Rectangle\<rparr>)) = Expanded
   \<and> collapseState (handleCollapseToSquare (w\<lparr>collapseState := Expanded\<rparr>)) = Square
   \<and> collapseState (handleCollapseToSquare (w\<lparr>collapseState := Rectangle\<rparr>)) = Square
   \<and> collapseState (handleCollapseToSquare (w\<lparr>collapseState := Square\<rparr>)) = Expanded
   \<and> collapseState (handleExpand (w\<lparr>collapseState := Rectangle\<rparr>)) = Expanded
   \<and> collapseState (handleExpand (w\<lparr>collapseState := Square\<rparr>)) = Expanded
   \<and> windowSize (handleCollapseToRectangle w) = windowSize w
   \<and> windowSize (handleCollapseToSquare w) = windowSize w
   \<and> windowSize (handleExpand w) = windowSize w
   \<and> \<not> enableResizing (handleCollapseToRectangle (w\<lparr>collapseState := Expanded\<rparr>))
   \<and> \<not> enableResizing (handleCollapseToSquare (w\<lparr>collapseState := Expanded\<rparr>))
   \<and> handleCollapseToRectangle (handleCollapseToRectangle (w\<lparr>collapseState := Expanded\<rparr>))
       = w\<lparr>collapseState := Expanded\<rparr>
   \<and> handleCollapseToSquare (handleCollapseToSquare (w\<lparr>collapseState := Expanded\<rparr>))
       = w\<lparr>collapseState := Expanded\<rparr>
   \<and> handleExpand (handleCollapseToRectangle (w\<lparr>collapseState := Expanded\<rparr>))
       = w\<lparr>collapseState := Expanded\<rparr>
   \<and> handleExpand (handleCollapseToSquare (w\<lparr>collapseState := Expanded\<rparr>))
       = w\<lparr>collapseState := Expanded\<rparr>
   \<and> renderedSize (handleCollapseToRectangle (handleCollapseToRectangle (w\<lparr>collapseState := Expanded\<rparr>)))
       = windowSize w
   \<and> renderedSize (handleCollapseToSquare (handleCollapseToSquare (w\<lparr>collapseState := Expanded\<rparr>)))
       = windowSize w"
  by (simp add: handleCollapseToRectangle_def handleCollapseToSquare_def handleExpand_def
      renderedSize_def enableResizing_def)

subsection \<open>Strings\<close>

lemma trim_trimStart: "trim (trimStart s) = trim s"
  by (simp add: trim_def trimStart_def)

lemma trim_empty_iff: "trim s = [] \<longleftrightarrow> (\<forall>c \<in> set s. isWhiteSpace c)"
proof (cases "dropWhile isWhiteSpace s")
  case Nil
  have "\<forall>c \<in> set s. isWhiteSpace c" using Nil by simp
  moreover have "trim s = []" unfolding trim_def Nil by simp
  ultimately show ?thesis by simp
next
  case (Cons x xs)
  then have "\<not> isWhiteSpace x" using hd_dropWhile[of isWhiteSpace s] by auto
  moreover have "x \<in> set s" using Cons set_dropWhileD[of x isWhiteSpace s] by simp
  ultimately show ?thesis using Cons by (auto simp: trim_def dropWhile_eq_Nil_conv)
qed

lemma splitAtFirstDoubleBreak_sound:
  "splitAtFirstDoubleBreak s = Some (p, q) \<Longrightarrow> s = p @ [LF, LF] @ q \<and> \<not> hasDoubleBreak (p @ [LF])"
proof (induction s arbitrary: p q rule: splitAtFirstDoubleBreak.induct)
  case (3 c d cs)
  show ?case
  proof (cases "c = LF \<and> d = LF")
    case True
    with 3 show ?thesis by auto
  next
    case False
    with "3.prems" obtain p' where sp: "splitAtFirstDoubleBreak (d # cs) = Some (p', q)"
      and p: "p = c # p'"
      by (auto split: option.splits)
    from "3.IH"[OF False sp] have ih: "d # cs = p' @ [LF, LF] @ q" "\<not> hasDoubleBreak (p' @ [LF])"
      by auto
    show ?thesis
    proof (cases p')
      case Nil
      with ih p False show ?thesis by auto
    next
      case (Cons a as)
      with ih p False show ?thesis by auto
    qed
  qed
qed simp_all

lemma splitAtFirstDoubleBreak_None: "splitAtFirstDoubleBreak s = None \<longleftrightarrow> \<not> hasDoubleBreak s"
  by (induction s rule: splitAtFirstDoubleBreak.induct) (auto split: option.splits)

lemma indexOfFrom_split:
  "indexOfFrom [LF, LF] s i =
     (case splitAtFirstDoubleBreak s of None \<Rightarrow> - 1 | Some (p, q) \<Rightarrow> int (i + length p))"
  by (induction s arbitrary: i rule: splitAtFirstDoubleBreak.induct)
     (auto split: option.splits)

lemma split_take_drop:
  "splitAtFirstDoubleBreak s = Some (p, q) \<Longrightarrow> take (length p) s = p \<and> drop (length p + 2) s = q"
  by (drule splitAtFirstDoubleBreak_sound) simp

subsection \<open>Partitioning (C1)\<close>

lemma separate_eq_amended:
  "separateAssistantResponse fullContent deltaHistory = amended_partition fullContent deltaHistory"
proof (cases "splitAtFirstDoubleBreak (normalizeNewlines fullContent)")
  case None
  then show ?thesis
    by (cases deltaHistory)
       (auto simp: separateAssistantResponse_def amended_partition_def indexOf_def indexOfFrom_split
          Let_def trim_trimStart split: list.splits)
next
  case (Some pq)
  obtain p q where pq: "pq = (p, q)" by (cases pq)
  from Some pq have td: "take (length p) (normalizeNewlines fullContent) = p"
      "drop (length p + 2) (normalizeNewlines fullContent) = q"
    using split_take_drop by auto
  have n: "nat (int (length p) + 2) = length p + 2" by simp
  show ?thesis using Some pq td
    by (cases deltaHistory)
       (auto simp: separateAssistantResponse_def amended_partition_def indexOf_def indexOfFrom_split
          Let_def trim_trimStart n split: list.splits)
qed

lemma separate_two_fragments:
  "separateAssistantResponse
     (concat [js ''Reasoning: consider X.'', [LF, LF] @ js ''Final: the answer is Y.''])
     [js ''Reasoning: consider X.'', [LF, LF] @ js ''Final: the answer is Y.'']
   = \<lparr>answer = js ''Final: the answer is Y.'', thinking = Some (js ''Reasoning: consider X.'')\<rparr>"
  by code_simp

text \<open>
  C1, as the specification words it, fails: on the single fragment
  \<open>" a\n\nb"\<close> the portion before the first double newline is \<open>" a"\<close>, but the code
  stores the trimmed \<open>"a"\<close> as thinking; and this single fragment does yield thinking.
\<close>

theorem separate_literal_counterexample:
  "separateAssistantResponse (concat [js '' a'' @ [LF, LF] @ js ''b'']) [js '' a'' @ [LF, LF] @ js ''b'']
     = \<lparr>answer = js ''b'', thinking = Some (js ''a'')\<rparr>
   \<and> spec_partition [js '' a'' @ [LF, LF] @ js ''b'']
     = \<lparr>answer = js ''b'', thinking = Some (js '' a'')\<rparr>"
  by code_simp

text \<open>
  C1, amended. With CRLF normalised to LF first: a blank text gives the empty answer and
  no thinking. Otherwise, if the text contains a double newline and the portions before
  and after the first one are both not blank, thinking is the portion before, trimmed, and
  answer is the portion after without its leading whitespace. Otherwise, if more than one
  fragment was received and the first fragment and the concatenation of the others are
  both not blank, thinking is the first fragment, trimmed, and answer is the rest without
  its leading whitespace. Otherwise the whole text without its leading whitespace is the
  answer and there is no thinking. \<open>splitAtFirstDoubleBreak\<close> is the split at the first
  double newline. The fragments \<open>["Reasoning: consider X.", "\n\nFinal: the answer is Y."]\<close>
  give the thinking and answer of the specification, and a single fragment whose
  normalised text has no double newline gives no thinking.
\<close>

theorem separateAssistantResponse_partition:
  "separateAssistantResponse fullContent deltaHistory = amended_partition fullContent deltaHistory
   \<and> (splitAtFirstDoubleBreak t = Some (p, q) \<longrightarrow>
        t = p @ [LF, LF] @ q \<and> \<not> hasDoubleBreak (p @ [LF]))
   \<and> (splitAtFirstDoubleBreak t = None \<longleftrightarrow> \<not> hasDoubleBreak t)
   \<and> separateAssistantResponse
        (concat [js ''Reasoning: consider X.'', [LF, LF] @ js ''Final: the answer is Y.''])
        [js ''Reasoning: consider X.'', [LF, LF] @ js ''Final: the answer is Y.'']
      = \<lparr>answer = js ''Final: the answer is Y.'', thinking = Some (js ''Reasoning: consider X.'')\<rparr>
   \<and> (\<not> hasDoubleBreak (normalizeNewlines f) \<longrightarrow>
        separateAssistantResponse f [f] = \<lparr>answer = trimStart (normalizeNewlines f), thinking = None\<rparr>)"
proof -
  have single: "separateAssistantResponse f [f] = \<lparr>answer = trimStart (normalizeNewlines f), thinking = None\<rparr>"
    if "\<not> hasDoubleBreak (normalizeNewlines f)"
  proof -
    from that have "splitAtFirstDoubleBreak (normalizeNewlines f) = None"
      by (simp add: splitAtFirstDoubleBreak_None)
    moreover have "trimStart (normalizeNewlines f) = []" if "trim (normalizeNewlines f) = []"
      using that by (simp add: trim_empty_iff trimStart_def)
    ultimately show ?thesis
      by (simp add: separate_eq_amended amended_partition_def Let_def)
  qed
  show ?thesis
    using separate_eq_amended splitAtFirstDoubleBreak_sound splitAtFirstDoubleBreak_None
      separate_two_fragments single
    by blast
qed

theorem separateAssistantResponse_partition_witness:
  "splitAtFirstDoubleBreak (js ''a'' @ [LF, LF] @ js ''b'') = Some (js ''a'', js ''b'')
   \<and> js ''a'' @ [LF, LF] @ js ''b'' = js ''a'' @ [LF, LF] @ js ''b''
   \<and> \<not> hasDoubleBreak (js ''a'' @ [LF])
   \<and> \<not> hasDoubleBreak (normalizeNewlines (js ''Just the answer.''))
   \<and> separateAssistantResponse (js ''Just the answer.'') [js ''Just the answer.'']
      = \<lparr>answer = js ''Just the answer.'', thinking = None\<rparr>"
proof -
  have s: "splitAtFirstDoubleBreak (js ''a'' @ [LF, LF] @ js ''b'') = Some (js ''a'', js ''b'')"
    by code_simp
  have h: "\<not> hasDoubleBreak (normalizeNewlines (js ''Just the answer.''))"
    by code_simp
  have t: "trimStart (normalizeNewlines (js ''Just the answer.'')) = js ''Just the answer.''"
    by code_simp
  note th = separateAssistantResponse_partition
    [where fullContent = "[]" and deltaHistory = "[]"
       and t = "js ''a'' @ [LF, LF] @ js ''b''" and p = "js ''a''" and q = "js ''b''"
       and f = "js ''Just the answer.''"]
  have a: "js ''a'' @ [LF, LF] @ js ''b'' = js ''a'' @ [LF, LF] @ js ''b''
      \<and> \<not> hasDoubleBreak (js ''a'' @ [LF])"
    by (rule th[THEN conjunct2, THEN conjunct1, THEN mp, OF s])
  have b: "separateAssistantResponse (js ''Just the answer.'') [js ''Just the answer.'']
      = \<lparr>answer = js ''Just the answer.'', thinking = None\<rparr>"
    using th[THEN conjunct2, THEN conjunct2, THEN conjunct2, THEN conjunct2, THEN mp, OF h]
    by (simp only: t)
  show ?thesis using s a h b by blast
qed

subsection \<open>Descriptor resolution (C6)\<close>













subsection \<open>Anchor repositioning tick (C7)\<close>


lemma find_Some_mem: "find P xs = Some x \<Longrightarrow> x \<in> set xs \<and> P x"
  by (induction xs) (simp_all split: if_splits)








subsection \<open>Switching the active anchor (C8)\<close>

lemma priorityDescriptors_head:
  assumes "key \<noteq> []" and "descriptorMapGet entries key = Some index"
  shows "\<exists>rest. priorityDescriptors entries key = index # rest"
  using assms by (simp add: priorityDescriptors_def)

lemma tick_with_offset:
  assumes "isMounted s"
    and "firstResolved f doc entries (priorityDescriptors entries (activeAnchorKey s))
         = Inr (Some (i, element))"
    and "anchorOffset s = Some offset"
  shows "\<exists>s'. ensureAnchorPosition f doc entries s = Inr s'
      \<and> anchorOffset s' = Some offset
      \<and> activeAnchorKey s' =
          (if snd (entries ! i) \<noteq> [] \<and> snd (entries ! i) \<noteq> activeAnchorKey s
           then snd (entries ! i) else activeAnchorKey s)
      \<and> anchorOffsets s' =
          (if snd (entries ! i) \<noteq> [] then (anchorOffsets s)(snd (entries ! i) \<mapsto> offset)
           else anchorOffsets s)
      \<and> position s' =
          (if \<not> isDragging s
              \<and> (\<bar>px (plus_offset (getBoundingClientRect element) offset) - px (position s)\<bar> > 0.5
                 \<or> \<bar>py (plus_offset (getBoundingClientRect element) offset) - py (position s)\<bar> > 0.5)
           then plus_offset (getBoundingClientRect element) offset
           else position s)"
  using assms by (simp add: ensureAnchorPosition_def Let_def plus_offset_def)

lemma anchorChipClick_offset:
  assumes mounted: "isMounted s"
    and key: "snd (entries ! index) \<noteq> []"
      "descriptorMapGet entries (snd (entries ! index)) = Some index"
    and res: "resolveElementForDescriptor f doc (fst (entries ! index)) = Inr (Some element)"
  shows "\<exists>s'. anchorChipClick f doc entries index s = Inr s'
      \<and> activeAnchorKey s' = snd (entries ! index)
      \<and> anchorOffset s' =
          Some (case anchorOffsets s (snd (entries ! index)) of
                  Some stored \<Rightarrow> stored
                | None \<Rightarrow>
                    nudged (case anchorOffset s of
                              Some current \<Rightarrow> current
                            | None \<Rightarrow> defaultOffset (getBoundingClientRect element)))
      \<and> anchorOffsets s' (snd (entries ! index)) = anchorOffset s'
      \<and> position s' = plus_offset (getBoundingClientRect element) (the (anchorOffset s'))"
proof -
  define k where "k = snd (entries ! index)"
  define rect where "rect = getBoundingClientRect element"
  define nextOffset where "nextOffset =
    (case anchorOffsets s k of
       Some stored \<Rightarrow> stored
     | None \<Rightarrow> nudged (case anchorOffset s of Some current \<Rightarrow> current | None \<Rightarrow> defaultOffset rect))"
  define s1 where "s1 = s\<lparr>activeAnchorKey := k, anchorElement := Some element,
      anchorElementMissing := False, anchorOffset := Some nextOffset,
      anchorOffsets := (anchorOffsets s)(k \<mapsto> nextOffset),
      position := plus_offset rect nextOffset\<rparr>"
  have click: "anchorChipClick f doc entries index s = ensureAnchorPosition f doc entries s1"
    by (cases "anchorOffsets s k"; cases "anchorOffset s")
       (simp_all add: anchorChipClick_def Let_def res s1_def nextOffset_def k_def[symmetric]
          rect_def[symmetric] nudged_def defaultOffset_def plus_offset_def
          ANCHOR_ALIGNMENT_NUDGE_PX_def)
  from priorityDescriptors_head[OF key] obtain rest
    where pr: "priorityDescriptors entries k = index # rest" unfolding k_def ..
  have s1f: "isMounted s1" "activeAnchorKey s1 = k" "anchorOffset s1 = Some nextOffset"
      "position s1 = plus_offset rect nextOffset" "anchorOffsets s1 = (anchorOffsets s)(k \<mapsto> nextOffset)"
    using mounted by (simp_all add: s1_def)
  have fr: "firstResolved f doc entries (priorityDescriptors entries (activeAnchorKey s1))
      = Inr (Some (index, element))"
    unfolding s1f pr by (simp add: res)
  from tick_with_offset[OF s1f(1) fr s1f(3)] obtain s'
    where s': "ensureAnchorPosition f doc entries s1 = Inr s'"
      "anchorOffset s' = Some nextOffset"
      "activeAnchorKey s' =
          (if snd (entries ! index) \<noteq> [] \<and> snd (entries ! index) \<noteq> activeAnchorKey s1
           then snd (entries ! index) else activeAnchorKey s1)"
      "anchorOffsets s' =
          (if snd (entries ! index) \<noteq> [] then (anchorOffsets s1)(snd (entries ! index) \<mapsto> nextOffset)
           else anchorOffsets s1)"
      "position s' =
          (if \<not> isDragging s1
              \<and> (\<bar>px (plus_offset (getBoundingClientRect element) nextOffset) - px (position s1)\<bar> > 0.5
                 \<or> \<bar>py (plus_offset (getBoundingClientRect element) nextOffset) - py (position s1)\<bar> > 0.5)
           then plus_offset (getBoundingClientRect element) nextOffset
           else position s1)"
    by blast
  have a: "activeAnchorKey s' = k" unfolding s'(3) s1f(2) by (simp add: k_def)
  have b: "anchorOffsets s' k = Some nextOffset" unfolding s'(4) using key(1) by (simp add: k_def)
  have c: "position s' = plus_offset rect nextOffset"
    unfolding s'(5) s1f(4) by (simp add: rect_def)
  show ?thesis
    unfolding click k_def[symmetric] rect_def[symmetric] nextOffset_def[symmetric]
    using s'(1,2) a b c by simp
qed

text \<open>
  C8, as stated, fails: with no cached offset for the target anchor but a current offset
  of (300, 50), the applied offset is the current offset nudged up, (300, 18), and not the
  nudged default offset (220, -32) of the target's 200 px wide rectangle.
\<close>

theorem anchorChipClick_counterexample:
  "anchorOffsets (freshAnchorState\<lparr>anchorOffset := Some \<lparr>px = 300, py = 50\<rparr>\<rparr>)
       (snd (singleEntries ! 0)) = None
   \<and> (\<exists>s'. anchorChipClick (\<lambda>d. None) singleDocument singleEntries 0
               (freshAnchorState\<lparr>anchorOffset := Some \<lparr>px = 300, py = 50\<rparr>\<rparr>) = Inr s'
          \<and> anchorOffset s' = Some \<lparr>px = 300, py = 18\<rparr>
          \<and> position s' = \<lparr>px = 300, py = 118\<rparr>)
   \<and> nudged (defaultOffset (getBoundingClientRect dupSecond)) = \<lparr>px = 220, py = - 32\<rparr>"
proof -
  note defs = dupSecond_def dupDescriptor_def dupEngine_def
    singleDocument_def singleEntries_def js_def chatIdSelector_def
  let ?s = "freshAnchorState\<lparr>anchorOffset := Some \<lparr>px = 300, py = 50\<rparr>\<rparr>"
  have h1: "isMounted ?s" by (simp add: freshAnchorState_def)
  have h2: "snd (singleEntries ! 0) \<noteq> []" by (simp add: singleEntries_def js_def)
  have h3: "descriptorMapGet singleEntries (snd (singleEntries ! 0)) = Some 0"
    by (simp add: descriptorMapGet_def singleEntries_def)
  have h4: "resolveElementForDescriptor (\<lambda>d. None) singleDocument (fst (singleEntries ! 0))
      = Inr (Some dupSecond)"
    by (simp add: resolveElementForDescriptor_def getElementById_def defs)
  have n: "anchorOffsets ?s (snd (singleEntries ! 0)) = None"
    by (simp add: freshAnchorState_def)
  from anchorChipClick_offset[OF h1 h2 h3 h4] obtain s'
    where s': "anchorChipClick (\<lambda>d. None) singleDocument singleEntries 0 ?s = Inr s'"
      "anchorOffset s' =
          Some (case anchorOffsets ?s (snd (singleEntries ! 0)) of
                  Some stored \<Rightarrow> stored
                | None \<Rightarrow>
                    nudged (case anchorOffset ?s of
                              Some current \<Rightarrow> current
                            | None \<Rightarrow> defaultOffset (getBoundingClientRect dupSecond)))"
      "position s' = plus_offset (getBoundingClientRect dupSecond) (the (anchorOffset s'))"
    by blast
  have o: "anchorOffset s' = Some \<lparr>px = 300, py = 18\<rparr>"
    unfolding s'(2) n by (simp add: nudged_def)
  have p: "position s' = \<lparr>px = 300, py = 118\<rparr>"
    unfolding s'(3) o by (simp add: plus_offset_def dupSecond_def)
  have d: "nudged (defaultOffset (getBoundingClientRect dupSecond)) = \<lparr>px = 220, py = - 32\<rparr>"
    by (simp add: nudged_def defaultOffset_def dupSecond_def)
  show ?thesis using n s'(1) o p d by blast
qed

text \<open>
  C8, amended. When the user switches the active anchor with the chip of an entry whose
  key is not shared by a later entry, and the entry's element resolves: if a cached offset
  exists for the target anchor it is applied unchanged; otherwise the applied offset is the
  window's current offset if it has one, else the default offset (element width plus 20,
  at most 240 px, to the right), in both cases shifted upward by 32 px. The applied offset
  becomes the current offset and the cached offset of the target anchor, the target
  becomes the active anchor, and the window is at the target rectangle plus that offset.
\<close>

theorem anchorChipClick_switch:
  assumes "isMounted s"
    and "snd (entries ! index) \<noteq> []"
    and "descriptorMapGet entries (snd (entries ! index)) = Some index"
    and "resolveElementForDescriptor f doc (fst (entries ! index)) = Inr (Some element)"
  shows "\<exists>s'. anchorChipClick f doc entries index s = Inr s'
      \<and> activeAnchorKey s' = snd (entries ! index)
      \<and> anchorOffset s' =
          Some (case anchorOffsets s (snd (entries ! index)) of
                  Some stored \<Rightarrow> stored
                | None \<Rightarrow>
                    nudged (case anchorOffset s of
                              Some current \<Rightarrow> current
                            | None \<Rightarrow> defaultOffset (getBoundingClientRect element)))
      \<and> anchorOffsets s' (snd (entries ! index)) = anchorOffset s'
      \<and> position s' = plus_offset (getBoundingClientRect element) (the (anchorOffset s'))"
  using assms by (rule anchorChipClick_offset)

theorem anchorChipClick_switch_witness:
  "isMounted freshAnchorState
   \<and> snd (singleEntries ! 0) \<noteq> []
   \<and> descriptorMapGet singleEntries (snd (singleEntries ! 0)) = Some 0
   \<and> resolveElementForDescriptor (\<lambda>d. None) singleDocument (fst (singleEntries ! 0)) = Inr (Some dupSecond)
   \<and> (\<exists>s'. anchorChipClick (\<lambda>d. None) singleDocument singleEntries 0 freshAnchorState = Inr s'
          \<and> anchorOffset s' = Some \<lparr>px = 220, py = - 32\<rparr>
          \<and> position s' = \<lparr>px = 220, py = 68\<rparr>)"
proof -
  note defs = dupSecond_def dupDescriptor_def dupEngine_def
    singleDocument_def singleEntries_def js_def chatIdSelector_def freshAnchorState_def
  have h1: "isMounted freshAnchorState" by (simp add: freshAnchorState_def)
  have h2: "snd (singleEntries ! 0) \<noteq> []" by (simp add: singleEntries_def js_def)
  have h3: "descriptorMapGet singleEntries (snd (singleEntries ! 0)) = Some 0"
    by (simp add: descriptorMapGet_def singleEntries_def)
  have h4: "resolveElementForDescriptor (\<lambda>d. None) singleDocument (fst (singleEntries ! 0))
      = Inr (Some dupSecond)"
    by (simp add: resolveElementForDescriptor_def getElementById_def defs)
  have n: "anchorOffsets freshAnchorState (snd (singleEntries ! 0)) = None"
      "anchorOffset freshAnchorState = None"
    by (simp_all add: freshAnchorState_def)
  from anchorChipClick_switch[OF h1 h2 h3 h4] obtain s'
    where s': "anchorChipClick (\<lambda>d. None) singleDocument singleEntries 0 freshAnchorState = Inr s'"
      "anchorOffset s' =
          Some (case anchorOffsets freshAnchorState (snd (singleEntries ! 0)) of
                  Some stored \<Rightarrow> stored
                | None \<Rightarrow>
                    nudged (case anchorOffset freshAnchorState of
                              Some current \<Rightarrow> current
                            | None \<Rightarrow> defaultOffset (getBoundingClientRect dupSecond)))"
      "position s' = plus_offset (getBoundingClientRect dupSecond) (the (anchorOffset s'))"
    by blast
  have o: "anchorOffset s' = Some \<lparr>px = 220, py = - 32\<rparr>"
    unfolding s'(2) n by (simp add: nudged_def defaultOffset_def dupSecond_def)
  have p: "position s' = \<lparr>px = 220, py = 68\<rparr>"
    unfolding s'(3) o by (simp add: plus_offset_def dupSecond_def)
  show ?thesis using h1 h2 h3 h4 s'(1) o p by blast
qed

subsection \<open>Message list: deduplication and removal\<close>

lemma set_dedupeLoop: "set (dedupeLoop seen ms) \<subseteq> set ms"
  by (induction ms arbitrary: seen) auto

lemma dedupeLoop_fresh: "m \<in> set (dedupeLoop seen ms) \<Longrightarrow> id_m m \<notin> seen"
proof (induction ms arbitrary: seen)
  case Nil
  then show ?case by simp
next
  case (Cons a ms)
  show ?case
  proof (cases "id_m a \<in> seen")
    case True
    with Cons show ?thesis by simp
  next
    case False
    with Cons.prems have "m = a \<or> m \<in> set (dedupeLoop (insert (id_m a) seen) ms)" by simp
    then show ?thesis
    proof
      assume "m = a"
      with False show ?thesis by simp
    next
      assume "m \<in> set (dedupeLoop (insert (id_m a) seen) ms)"
      from Cons.IH[OF this] show ?thesis by simp
    qed
  qed
qed

lemma distinct_dedupeLoop: "distinct (map id_m (dedupeLoop seen ms))"
proof (induction ms arbitrary: seen)
  case Nil
  then show ?case by simp
next
  case (Cons a ms)
  show ?case
  proof (cases "id_m a \<in> seen")
    case True
    with Cons show ?thesis by simp
  next
    case False
    have "id_m a \<notin> id_m ` set (dedupeLoop (insert (id_m a) seen) ms)"
    proof
      assume "id_m a \<in> id_m ` set (dedupeLoop (insert (id_m a) seen) ms)"
      then obtain x where x: "x \<in> set (dedupeLoop (insert (id_m a) seen) ms)" "id_m a = id_m x"
        by blast
      from dedupeLoop_fresh[OF x(1)] x(2) show False by simp
    qed
    with False Cons.IH show ?thesis by simp
  qed
qed

lemma idsDistinct_dedupe: "idsDistinct (dedupeMessagesById ms)"
  by (simp add: idsDistinct_def dedupeMessagesById_def distinct_dedupeLoop)

lemma set_dedupe: "set (dedupeMessagesById ms) \<subseteq> set ms"
  by (simp add: dedupeMessagesById_def set_dedupeLoop)



lemma dedupe_nonempty: "ms \<noteq> [] \<Longrightarrow> dedupeMessagesById ms \<noteq> []"
  by (cases ms) (simp_all add: dedupeMessagesById_def)

lemma set_removeFirstAssistant: "set (removeFirstAssistant ms) \<subseteq> set ms"
  by (induction ms) auto

lemma distinct_removeFirstAssistant:
  "distinct (map f ms) \<Longrightarrow> distinct (map f (removeFirstAssistant ms))"
proof (induction ms)
  case Nil
  then show ?case by simp
next
  case (Cons a ms)
  have "f a \<notin> f ` set (removeFirstAssistant ms)"
    using Cons.prems set_removeFirstAssistant[of ms] by auto
  with Cons show ?case by simp
qed

lemma set_removeLastAssistant: "set (removeLastAssistant ms) \<subseteq> set ms"
  using set_removeFirstAssistant[of "rev ms"] by (simp add: removeLastAssistant_def)

lemma idsDistinct_removeLastAssistant: "idsDistinct ms \<Longrightarrow> idsDistinct (removeLastAssistant ms)"
proof -
  assume "idsDistinct ms"
  then have "distinct (rev (map id_m ms))" by (simp add: idsDistinct_def)
  then have "distinct (map id_m (rev ms))" by (simp only: rev_map)
  then have "distinct (map id_m (removeFirstAssistant (rev ms)))"
    by (rule distinct_removeFirstAssistant)
  then have "distinct (rev (map id_m (removeFirstAssistant (rev ms))))" by simp
  then show ?thesis by (simp only: idsDistinct_def removeLastAssistant_def rev_map)
qed

subsection \<open>Message list: one assistant message per turn\<close>

lemma idsDistinct_distinct: "idsDistinct F \<Longrightarrow> distinct F"
  by (simp add: idsDistinct_def distinct_map)

lemma oneAssistantPerTurn_step:
  assumes inv: "oneAssistantPerTurn L"
    and fresh: "\<forall>m \<in> set L. role m = Assistant \<longrightarrow> turnId m \<noteq> Some t"
    and dist: "idsDistinct F"
    and mem: "\<forall>m \<in> set F. turnMember L t i m"
  shows "oneAssistantPerTurn F"
  unfolding oneAssistantPerTurn_def
proof
  fix u
  let ?xs = "assistantsOfTurn u F"
  have dxs: "distinct (map id_m ?xs)"
    using dist by (simp add: idsDistinct_def assistantsOfTurn_def distinct_map_filter)
  show "length ?xs \<le> 1"
  proof (cases "u = t")
    case True
    have "\<forall>m \<in> set ?xs. id_m m = i"
      using mem fresh True by (auto simp: assistantsOfTurn_def turnMember_def)
    then have "set (map id_m ?xs) \<subseteq> {i}" by auto
    then have "card (set (map id_m ?xs)) \<le> 1"
      using card_mono[of "{i}" "set (map id_m ?xs)"] by simp
    with dxs show ?thesis using distinct_card[of "map id_m ?xs"] by simp
  next
    case False
    have sub: "set ?xs \<subseteq> set (assistantsOfTurn u L)"
      using mem False by (auto simp: assistantsOfTurn_def turnMember_def)
    have "distinct ?xs" using dxs by (simp add: distinct_map)
    then have "length ?xs = card (set ?xs)" by (simp add: distinct_card)
    also have "\<dots> \<le> card (set (assistantsOfTurn u L))"
      using sub by (simp add: card_mono)
    also have "\<dots> \<le> length (assistantsOfTurn u L)" by (rule card_length)
    also have "\<dots> \<le> 1" using inv by (simp add: oneAssistantPerTurn_def)
    finally show ?thesis .
  qed
qed

subsection \<open>Message list: the steps of a turn\<close>

lemma messageList_storeFinal: "messageList (storeFinalMessages F st) = F"
  by (simp add: storeFinalMessages_def newArray_def messageList_def)

lemma messageList_catchError:
  "isMountedChat st \<Longrightarrow>
   messageList (catchError env st) = dedupeMessagesById (messageList st @ [errorMessageEntry env])"
  by (simp add: catchError_def newArray_def messageList_def Let_def)

lemma catchError_unmounted: "\<not> isMountedChat st \<Longrightarrow> catchError env st = st"
  by (simp add: catchError_def)

lemma appendUserMessage_facts:
  assumes "appendUserMessage env t userMessage imgs st = (st1, r)"
  shows "messages st1 = r" "sessionMessages st1 = r"
    "heap st1 r = dedupeMessagesById (messageList st @ [userMessageEntry env t userMessage imgs])"
    "isMountedChat st1 = isMountedChat st" "clearPreviousAssistant st1 = clearPreviousAssistant st"
    "duplicateTestConfig st1 = duplicateTestConfig st"
  using assms by (auto simp: appendUserMessage_def newArray_def Let_def messageList_def)

lemma findIndexById_Some:
  "findIndexById i xs = Some k \<Longrightarrow> k < length xs \<and> id_m (xs ! k) = i"
proof (induction xs arbitrary: k)
  case Nil
  then show ?case by simp
next
  case (Cons a xs)
  show ?case
  proof (cases "id_m a = i")
    case True
    with Cons.prems show ?thesis by simp
  next
    case False
    with Cons.prems obtain k' where k': "findIndexById i xs = Some k'" "k = Suc k'"
      by auto
    from Cons.IH[OF k'(1)] k'(2) show ?thesis by simp
  qed
qed

lemma writeSessionMessage_fields:
  "messages (writeSessionMessage i rep st) = messages st"
  "sessionMessages (writeSessionMessage i rep st) = sessionMessages st"
  "isMountedChat (writeSessionMessage i rep st) = isMountedChat st"
  by (simp_all add: writeSessionMessage_def Let_def split: option.splits)

lemma writeSessionMessage_list:
  assumes "messages st = sessionMessages st"
  shows "set (messageList (writeSessionMessage i rep st))
         \<subseteq> set (messageList st) \<union> rep ` {m \<in> set (messageList st). id_m m = i}"
proof (cases "findIndexById i (messageList st)")
  case None
  with assms show ?thesis
    by (simp add: writeSessionMessage_def messageList_def Let_def)
next
  case (Some k)
  from findIndexById_Some[OF Some] have k: "k < length (messageList st)"
      "id_m (messageList st ! k) = i" by simp_all
  have eq: "messageList (writeSessionMessage i rep st)
      = (messageList st)[k := rep (messageList st ! k)]"
    using Some assms by (simp add: writeSessionMessage_def messageList_def Let_def)
  have sub: "set ((messageList st)[k := rep (messageList st ! k)])
      \<subseteq> insert (rep (messageList st ! k)) (set (messageList st))"
    by (rule set_update_subset_insert)
  have "messageList st ! k \<in> {m \<in> set (messageList st). id_m m = i}"
    using k by simp
  then have "rep (messageList st ! k) \<in> rep ` {m \<in> set (messageList st). id_m m = i}"
    by (rule imageI)
  with sub show ?thesis unfolding eq by auto
qed

lemma find_id_mem: "find (\<lambda>m. id_m m = i) F = Some found \<Longrightarrow> found \<in> set F \<and> id_m found = i"
  by (drule find_Some_mem) simp

lemma turnMember_old: "m \<in> set L \<or> role m \<noteq> Assistant \<Longrightarrow> turnMember L t i m"
  by (auto simp: turnMember_def)

lemma turnMember_error: "turnMember L t i (errorMessageEntry env)"
  by (simp add: turnMember_def errorMessageEntry_def)

lemma turnMember_update: "id_m m = i \<Longrightarrow> turnMember L t i (updateEntry env t stored th m)"
  by (simp add: turnMember_def updateEntry_def)

lemma turnMember_entry: "turnMember L t i (assistantEntry i ts t stored th)"
  by (simp add: turnMember_def assistantEntry_def)
lemma dedupe_members:
  "\<forall>m \<in> set X. turnMember L t i m \<Longrightarrow> \<forall>m \<in> set (dedupeMessagesById X). turnMember L t i m"
  using set_dedupe[of X] by blast

lemma updateExisting_result:
  assumes shared: "messages st = sessionMessages st" and mounted: "isMountedChat st"
    and cur: "\<forall>m \<in> set (messageList st). turnMember L t i m"
    and base: "\<forall>b \<in> set baseMessages. id_m b \<noteq> i \<longrightarrow> turnMember L t i b"
  shows "\<exists>X. messageList (updateExisting env t stored th i baseMessages ok st) = dedupeMessagesById X
           \<and> (\<forall>m \<in> set X. turnMember L t i m)"
proof -
  let ?upd = "\<lambda>message. if id_m message = i then updateEntry env t stored th message else message"
  let ?final = "dedupeMessagesById (map ?upd baseMessages)"
  let ?rep = "\<lambda>old. case find (\<lambda>message. id_m message = i) ?final of None \<Rightarrow> old | Some found \<Rightarrow> found"
  let ?st1 = "writeSessionMessage i ?rep st"
  have X: "\<forall>m \<in> set (map ?upd baseMessages). turnMember L t i m"
    using base by (auto simp: turnMember_update)
  show ?thesis
  proof (cases ok)
    case True
    then have "messageList (updateExisting env t stored th i baseMessages ok st) = ?final"
      by (simp add: updateExisting_def Let_def messageList_storeFinal)
    with X show ?thesis by blast
  next
    case False
    have m1: "isMountedChat ?st1" using mounted by (simp add: writeSessionMessage_fields)
    have "messageList (updateExisting env t stored th i baseMessages ok st)
        = dedupeMessagesById (messageList ?st1 @ [errorMessageEntry env])"
      using False messageList_catchError[OF m1] by (simp add: updateExisting_def Let_def)
    moreover have "\<forall>m \<in> set (messageList ?st1 @ [errorMessageEntry env]). turnMember L t i m"
    proof
      fix m assume "m \<in> set (messageList ?st1 @ [errorMessageEntry env])"
      then consider "m = errorMessageEntry env" | "m \<in> set (messageList st)"
        | old where "old \<in> set (messageList st)" "m = ?rep old"
        using writeSessionMessage_list[OF shared, of i ?rep] by auto
      then show "turnMember L t i m"
      proof cases
        case 1
        then show ?thesis by (simp add: turnMember_error)
      next
        case 2
        with cur show ?thesis by blast
      next
        case 3
        show ?thesis
        proof (cases "find (\<lambda>message. id_m message = i) ?final")
          case None
          with 3 cur show ?thesis by simp
        next
          case (Some found)
          from find_id_mem[OF Some] have "found \<in> set ?final" by simp
          then have "turnMember L t i found" using dedupe_members[OF X] by blast
          with 3 Some show ?thesis by simp
        qed
      qed
    qed
    ultimately show ?thesis by blast
  qed
qed

lemma updateLast_result:
  assumes base: "\<forall>b \<in> set (butlast baseMessages). turnMember L t (id_m (last baseMessages)) b"
  shows "\<exists>X. messageList (updateLast env t stored th baseMessages st) = dedupeMessagesById X
           \<and> (\<forall>m \<in> set X. turnMember L t (id_m (last baseMessages)) m)"
proof -
  let ?X = "butlast baseMessages @ [updateEntry env t stored th (last baseMessages)]"
  have "messageList (updateLast env t stored th baseMessages st) = dedupeMessagesById ?X"
    by (simp add: updateLast_def Let_def messageList_storeFinal)
  moreover have "\<forall>m \<in> set ?X. turnMember L t (id_m (last baseMessages)) m"
    using base by (auto simp: turnMember_update)
  ultimately show ?thesis by blast
qed

lemma appendAssistant_result:
  assumes mounted: "isMountedChat st"
    and cur: "\<forall>m \<in> set (messageList st). turnMember L t (assistantMessageId env) m"
    and base: "\<forall>b \<in> set baseMessages. turnMember L t (assistantMessageId env) b"
  shows "\<exists>X. messageList (appendAssistant env t stored th baseMessages ok st) = dedupeMessagesById X
           \<and> (\<forall>m \<in> set X. turnMember L t (assistantMessageId env) m)"
proof (cases ok)
  case True
  let ?X = "baseMessages @ [assistantEntry (assistantMessageId env) (assistantTimestamp env) t stored th]"
  have "messageList (appendAssistant env t stored th baseMessages ok st) = dedupeMessagesById ?X"
    using True by (simp add: appendAssistant_def Let_def messageList_storeFinal)
  moreover have "\<forall>m \<in> set ?X. turnMember L t (assistantMessageId env) m"
    using base by (auto simp: turnMember_entry)
  ultimately show ?thesis by blast
next
  case False
  let ?st1 = "st\<lparr>assistantTurnMap := (assistantTurnMap st)(t \<mapsto> assistantMessageId env)\<rparr>"
  have m1: "isMountedChat ?st1" using mounted by simp
  have l1: "messageList ?st1 = messageList st" by (simp add: messageList_def)
  have "messageList (appendAssistant env t stored th baseMessages ok st)
      = dedupeMessagesById (messageList st @ [errorMessageEntry env])"
    using False messageList_catchError[OF m1] by (simp add: appendAssistant_def Let_def l1)
  moreover have "\<forall>m \<in> set (messageList st @ [errorMessageEntry env]).
      turnMember L t (assistantMessageId env) m"
    using cur by (auto simp: turnMember_error)
  ultimately show ?thesis by blast
qed

lemma spliceSessionMessages_facts:
  "messages (spliceSessionMessages st) = messages st"
  "sessionMessages (spliceSessionMessages st) = sessionMessages st"
  "isMountedChat (spliceSessionMessages st) = isMountedChat st"
  "clearPreviousAssistant (spliceSessionMessages st) = clearPreviousAssistant st"
  "duplicateTestConfig (spliceSessionMessages st) = duplicateTestConfig st"
  by (simp_all add: spliceSessionMessages_def)

lemma spliceSessionMessages_list:
  assumes "messages st = sessionMessages st"
  shows "messageList (spliceSessionMessages st)
         = (if clearPreviousAssistant st \<and> messageList st \<noteq> []
            then removeLastAssistant (messageList st) else messageList st)"
  using assms by (simp add: spliceSessionMessages_def messageList_def)

lemma forceDuplicate_facts:
  assumes "forceDuplicate env t stored th (base0, st1) = (base, st2)"
  shows "messages st2 = messages st1" "sessionMessages st2 = sessionMessages st1"
    "isMountedChat st2 = isMountedChat st1" "messageList st2 = messageList st1"
    "base = (if shouldForceDuplicate (duplicateTestConfig st1)
             then base0 @ [assistantEntry (forcedId env) (forcedTimestamp env) t stored th]
             else base0)"
    "shouldForceDuplicate (duplicateTestConfig st1) \<Longrightarrow> assistantTurnMap st2 t = Some (forcedId env)"
  using assms by (auto simp: forceDuplicate_def messageList_def split: if_splits)

lemma existingAssistant_Some:
  "existingAssistant t base st = Some i \<Longrightarrow> assistantTurnMap st t = Some i"
  by (auto simp: existingAssistant_def split: option.splits if_splits)

lemma findIndexById_mem: "m \<in> set xs \<Longrightarrow> findIndexById (id_m m) xs \<noteq> None"
  by (induction xs) auto

lemma existingAssistant_None_forced:
  assumes "existingAssistant t (base0 @ [assistantEntry f ts t stored th]) st = None"
    and "assistantTurnMap st t = Some f"
  shows "f = []"
proof (rule ccontr)
  assume "f \<noteq> []"
  moreover have "findIndexById f (base0 @ [assistantEntry f ts t stored th]) \<noteq> None"
    using findIndexById_mem[of "assistantEntry f ts t stored th"
        "base0 @ [assistantEntry f ts t stored th]"]
    by (simp add: assistantEntry_def)
  ultimately show False using assms by (simp add: existingAssistant_def)
qed

lemma completeStream_result:
  assumes shared: "messages st = r" "sessionMessages st = r"
    and old: "\<forall>m \<in> set (heap st r). m \<in> set L \<or> role m \<noteq> Assistant"
    and dist: "idsDistinct (heap st r)"
  shows "idsDistinct (messageList (completeStream env t r chunks ok st))
     \<and> (\<exists>i. \<forall>m \<in> set (messageList (completeStream env t r chunks ok st)). turnMember L t i m)"
proof (cases "isMountedChat st")
  case False
  then have "messageList (completeStream env t r chunks ok st) = heap st r"
    using shared by (simp add: completeStream_def messageList_def)
  with old dist show ?thesis by (auto simp: turnMember_def)
next
  case True
  define st1 where "st1 = spliceSessionMessages st"
  define assistantContent where "assistantContent = effectiveContent (duplicateTestConfig st1) chunks"
  define base0 where "base0 = baseMessagesOf r st1"
  define stored where "stored = assistantContentForStorage assistantContent chunks"
  define th where "th = assistantThinkingForStorage assistantContent chunks"
  have sh: "messages st = sessionMessages st" using shared by simp
  have st1f: "messages st1 = r" "sessionMessages st1 = r" "isMountedChat st1"
    using shared True by (simp_all add: st1_def spliceSessionMessages_facts)
  have l0: "messageList st = heap st r" using shared by (simp add: messageList_def)
  have l1: "messageList st1 = heap st1 r" using st1f by (simp add: messageList_def)
  have l1': "messageList st1 = heap st r \<or> messageList st1 = removeLastAssistant (heap st r)"
    unfolding st1_def spliceSessionMessages_list[OF sh] l0 by simp
  have sub1: "set (messageList st1) \<subseteq> set (heap st r)"
    using l1' set_removeLastAssistant[of "heap st r"] by auto
  have d1: "idsDistinct (messageList st1)"
    using l1' dist idsDistinct_removeLastAssistant[of "heap st r"] by auto
  have old1: "\<forall>m \<in> set (messageList st1). m \<in> set L \<or> role m \<noteq> Assistant"
    using sub1 old by blast
  have sub0: "set base0 \<subseteq> set (messageList st1)"
    unfolding base0_def baseMessagesOf_def l1
    using set_removeLastAssistant[of "heap st1 r"] by auto
  have old0: "\<forall>m \<in> set base0. m \<in> set L \<or> role m \<noteq> Assistant"
    using sub0 old1 by blast
  show ?thesis
  proof (cases "trim stored = []")
    case blank: True
    have "completeStream env t r chunks ok st = st1"
      using True blank
      unfolding stored_def th_def base0_def assistantContent_def st1_def
      by (simp add: completeStream_def Let_def)
    with d1 old1 show ?thesis by (auto simp: turnMember_def)
  next
    case nonblank: False
    obtain base st2 where fd: "forceDuplicate env t stored th (base0, st1) = (base, st2)"
      by (cases "forceDuplicate env t stored th (base0, st1)")
    note f = forceDuplicate_facts[OF fd]
    have st2f: "messages st2 = sessionMessages st2" "isMountedChat st2"
      using f st1f by simp_all
    have cur2: "\<And>i. \<forall>m \<in> set (messageList st2). turnMember L t i m"
      using old1 f(4) by (simp add: turnMember_old)
    have cs: "completeStream env t r chunks ok st =
        (case existingAssistant t base st2 of
           Some i \<Rightarrow> updateExisting env t stored th i base ok st2
         | None \<Rightarrow>
             if duplicateOfLast (trim stored) assistantContent base
             then updateLast env t stored th base st2
             else appendAssistant env t stored th base ok st2)"
      using True nonblank fd
      unfolding stored_def th_def base0_def assistantContent_def st1_def
      by (simp add: completeStream_def Let_def)
    have "\<exists>i X. messageList (completeStream env t r chunks ok st) = dedupeMessagesById X
           \<and> (\<forall>m \<in> set X. turnMember L t i m)"
    proof (cases "existingAssistant t base st2")
      case (Some i)
      have "\<forall>b \<in> set base. id_m b \<noteq> i \<longrightarrow> turnMember L t i b"
      proof (cases "shouldForceDuplicate (duplicateTestConfig st1)")
        case forced: True
        from f(6)[OF forced] existingAssistant_Some[OF Some] have "i = forcedId env" by simp
        then show ?thesis
          using f(5) forced old0 by (auto simp: turnMember_old turnMember_entry)
      next
        case False
        then show ?thesis using f(5) old0 by (auto simp: turnMember_old)
      qed
      from updateExisting_result[OF st2f cur2 this, of env stored th ok] Some cs
      show ?thesis by auto
    next
      case None
      show ?thesis
      proof (cases "duplicateOfLast (trim stored) assistantContent base")
        case dup: True
        then have ne: "base \<noteq> []" by (simp add: duplicateOfLast_def)
        have "set (butlast base) \<subseteq> set base0"
        proof (cases "shouldForceDuplicate (duplicateTestConfig st1)")
          case True
          then show ?thesis using f(5) by simp
        next
          case False
          then show ?thesis using f(5) by (auto dest: in_set_butlastD)
        qed
        then have "\<forall>b \<in> set (butlast base). turnMember L t (id_m (last base)) b"
          using old0 by (auto simp: turnMember_old)
        from updateLast_result[OF this, of env stored th st2] None dup cs
        show ?thesis by auto
      next
        case nodup: False
        have nf: "\<not> shouldForceDuplicate (duplicateTestConfig st1)"
        proof
          assume forced: "shouldForceDuplicate (duplicateTestConfig st1)"
          then have b: "base = base0 @ [assistantEntry (forcedId env) (forcedTimestamp env) t stored th]"
            using f(5) by simp
          from None f(6)[OF forced] have "forcedId env = []"
            unfolding b by (rule existingAssistant_None_forced)
          have "duplicateOfLast (trim stored) assistantContent base"
            using nonblank by (simp add: duplicateOfLast_def b assistantEntry_def)
          with nodup show False by simp
        qed
        then have "base = base0" using f(5) by simp
        then have "\<forall>b \<in> set base. turnMember L t (assistantMessageId env) b"
          using old0 by (auto simp: turnMember_old)
        from appendAssistant_result[OF st2f(2) cur2 this, of stored th ok] None nodup cs
        show ?thesis by auto
      qed
    qed
    then obtain i X where X: "messageList (completeStream env t r chunks ok st) = dedupeMessagesById X"
        "\<forall>m \<in> set X. turnMember L t i m"
      by blast
    show ?thesis
      unfolding X(1) using idsDistinct_dedupe[of X] dedupe_members[OF X(2)] by blast
  qed
qed

subsection \<open>Message list invariants (C3)\<close>

lemma length_assistantsOfTurn:
  "length (assistantsOfTurn u ms) = count_list (assistantTurnIds ms) u"
  by (induction ms)
     (auto simp: assistantsOfTurn_def assistantTurnIds_def split: option.splits)

lemma count_list_distinct: "distinct xs \<Longrightarrow> count_list xs u \<le> 1"
  by (induction xs) (auto simp: count_list_0_iff)

lemma oneAssistantPerTurn_distinct:
  "distinct (assistantTurnIds ms) \<Longrightarrow> oneAssistantPerTurn ms"
proof -
  assume d: "distinct (assistantTurnIds ms)"
  have "length (assistantsOfTurn u ms) \<le> 1" for u
    unfolding length_assistantsOfTurn by (rule count_list_distinct[OF d])
  then show ?thesis by (simp add: oneAssistantPerTurn_def)
qed

lemma fresh_turn:
  "t \<notin> set (assistantTurnIds ms) \<Longrightarrow> \<forall>m \<in> set ms. role m = Assistant \<longrightarrow> turnId m \<noteq> Some t"
  by (induction ms) (auto simp: assistantTurnIds_def split: option.splits if_splits)

lemma appendUserMessage_invariants:
  assumes inv: "oneAssistantPerTurn (messageList st)"
    and fresh: "\<forall>m \<in> set (messageList st). role m = Assistant \<longrightarrow> turnId m \<noteq> Some t"
    and app: "appendUserMessage env t userMessage imgs st = (st1, r)"
  shows "idsDistinct (messageList st1)" "oneAssistantPerTurn (messageList st1)"
    "\<forall>m \<in> set (messageList st1). m \<in> set (messageList st) \<or> role m \<noteq> Assistant"
proof -
  note f = appendUserMessage_facts[OF app]
  have l: "messageList st1 = dedupeMessagesById (messageList st @ [userMessageEntry env t userMessage imgs])"
    using f(1,3) by (simp add: messageList_def)
  show d: "idsDistinct (messageList st1)" unfolding l by (rule idsDistinct_dedupe)
  show m: "\<forall>m \<in> set (messageList st1). m \<in> set (messageList st) \<or> role m \<noteq> Assistant"
    unfolding l
    using set_dedupe[of "messageList st @ [userMessageEntry env t userMessage imgs]"]
    by (auto simp: userMessageEntry_def)
  then have "\<forall>m \<in> set (messageList st1). turnMember (messageList st) t [] m"
    by (simp add: turnMember_old)
  with inv fresh d show "oneAssistantPerTurn (messageList st1)"
    by (rule oneAssistantPerTurn_step)
qed

lemma catchError_invariants:
  assumes inv: "oneAssistantPerTurn L"
    and fresh: "\<forall>m \<in> set L. role m = Assistant \<longrightarrow> turnId m \<noteq> Some t"
    and d: "idsDistinct (messageList st)"
    and m: "\<forall>m \<in> set (messageList st). m \<in> set L \<or> role m \<noteq> Assistant"
  shows "idsDistinct (messageList (catchError env st))"
    "oneAssistantPerTurn (messageList (catchError env st))"
proof -
  have mem: "\<forall>m \<in> set (messageList st). turnMember L t [] m"
    using m by (simp add: turnMember_old)
  have "idsDistinct (messageList (catchError env st))
      \<and> (\<forall>m \<in> set (messageList (catchError env st)). turnMember L t [] m)"
  proof (cases "isMountedChat st")
    case False
    with d mem show ?thesis by (simp add: catchError_unmounted)
  next
    case True
    have "\<forall>m \<in> set (messageList st @ [errorMessageEntry env]). turnMember L t [] m"
      using mem by (auto simp: turnMember_error)
    from dedupe_members[OF this] show ?thesis
      unfolding messageList_catchError[OF True] by (simp add: idsDistinct_dedupe)
  qed
  then show "idsDistinct (messageList (catchError env st))"
    "oneAssistantPerTurn (messageList (catchError env st))"
    using oneAssistantPerTurn_step[OF inv fresh] by blast+
qed

text \<open>
  C3. Starting from a list with at most one assistant message per turn id, and for a turn
  id that no assistant message of the list carries yet (the callers generate a new one
  for every submission): after the user message is appended, and after the whole turn,
  however it ends (answer stored or updated in place, blank answer, backend failure with
  its error message, persistence failure), the message list has no two entries with the
  same id and at most one assistant message per turn id. The ids are distinct whenever
  the turn changed the state at all. The empty list satisfies both.
\<close>

theorem message_list_invariants:
  assumes inv: "oneAssistantPerTurn (messageList st)"
    and new: "t \<notin> set (assistantTurnIds (messageList st))"
  shows "idsDistinct (messageList (fst (appendUserMessage env t userMessage imgs st)))
    \<and> oneAssistantPerTurn (messageList (fst (appendUserMessage env t userMessage imgs st)))
    \<and> (idsDistinct (messageList (sendMessageToAPI env t userMessage imgs outcome st))
        \<or> sendMessageToAPI env t userMessage imgs outcome st = st)
    \<and> oneAssistantPerTurn (messageList (sendMessageToAPI env t userMessage imgs outcome st))
    \<and> idsDistinct [] \<and> oneAssistantPerTurn []"
proof -
  have fresh: "\<forall>m \<in> set (messageList st). role m = Assistant \<longrightarrow> turnId m \<noteq> Some t"
    using new by (rule fresh_turn)
  note assms = inv fresh
  obtain st1 r where app: "appendUserMessage env t userMessage imgs st = (st1, r)"
    by (cases "appendUserMessage env t userMessage imgs st")
  note a = appendUserMessage_invariants[OF assms app]
  note f = appendUserMessage_facts[OF app]
  have l1: "messageList st1 = heap st1 r" using f(1) by (simp add: messageList_def)
  have turn: "(idsDistinct (messageList (sendMessageToAPI env t userMessage imgs outcome st))
        \<or> sendMessageToAPI env t userMessage imgs outcome st = st)
    \<and> oneAssistantPerTurn (messageList (sendMessageToAPI env t userMessage imgs outcome st))"
  proof (cases outcome)
    case PersistUserFailed
    show ?thesis
    proof (cases "isMountedChat st")
      case False
      with PersistUserFailed assms(1) show ?thesis
        by (simp add: sendMessageToAPI_def catchError_unmounted)
    next
      case True
      have mem: "\<forall>m \<in> set (messageList st @ [errorMessageEntry env]). turnMember (messageList st) t [] m"
        by (auto simp: turnMember_error turnMember_old)
      have d: "idsDistinct (messageList (catchError env st))"
        unfolding messageList_catchError[OF True] by (rule idsDistinct_dedupe)
      moreover have "oneAssistantPerTurn (messageList (catchError env st))"
        using oneAssistantPerTurn_step[OF assms d] dedupe_members[OF mem]
        unfolding messageList_catchError[OF True] by blast
      ultimately show ?thesis using PersistUserFailed by (simp add: sendMessageToAPI_def)
    qed
  next
    case BackendFailed
    from catchError_invariants[OF assms a(1) a(3), of env] BackendFailed app
    show ?thesis by (simp add: sendMessageToAPI_def)
  next
    case (StreamCompleted chunks ok)
    have "idsDistinct (messageList (completeStream env t r chunks ok st1))
      \<and> (\<exists>i. \<forall>m \<in> set (messageList (completeStream env t r chunks ok st1)).
              turnMember (messageList st) t i m)"
      using completeStream_result[OF f(1) f(2), of "messageList st" env t chunks ok] a(1) a(3)
      unfolding l1 by blast
    then have "idsDistinct (messageList (completeStream env t r chunks ok st1))
      \<and> oneAssistantPerTurn (messageList (completeStream env t r chunks ok st1))"
      using oneAssistantPerTurn_step[OF assms] by blast
    with StreamCompleted app show ?thesis by (simp add: sendMessageToAPI_def)
  qed
  have "idsDistinct [] \<and> oneAssistantPerTurn []"
    by (simp add: idsDistinct_def oneAssistantPerTurn_def assistantsOfTurn_def)
  with a(1,2) turn app show ?thesis by simp
qed

theorem message_list_invariants_witness:
  "oneAssistantPerTurn (messageList (twoTurnsState False))
   \<and> js ''u3'' \<notin> set (assistantTurnIds (messageList (twoTurnsState False)))
   \<and> idsDistinct (messageList (sendMessageToAPI exampleEnv (js ''u3'') (js ''third'') []
         (StreamCompleted [js ''x''] True) (twoTurnsState False)))
   \<and> oneAssistantPerTurn (messageList (sendMessageToAPI exampleEnv (js ''u3'') (js ''third'') []
         (StreamCompleted [js ''x''] True) (twoTurnsState False)))
   \<and> map id_m (messageList (sendMessageToAPI exampleEnv (js ''u3'') (js ''third'') []
         (StreamCompleted [js ''x''] True) (twoTurnsState False)))
      = [js ''u1'', js ''a1'', js ''u2'', js ''a2'', js ''u3'', js ''a3'']"
proof -
  let ?st = "twoTurnsState False"
  let ?st' = "sendMessageToAPI exampleEnv (js ''u3'') (js ''third'') []
         (StreamCompleted [js ''x''] True) ?st"
  have ids: "assistantTurnIds (messageList ?st) = [js ''u1'', js ''u2'']"
    by code_simp
  have h1: "oneAssistantPerTurn (messageList ?st)"
    by (rule oneAssistantPerTurn_distinct) (simp add: ids js_def)
  have h2: "js ''u3'' \<notin> set (assistantTurnIds (messageList ?st))"
    by (simp add: ids js_def)
  have l: "map id_m (messageList ?st')
      = [js ''u1'', js ''a1'', js ''u2'', js ''a2'', js ''u3'', js ''a3'']"
    by code_simp
  have ne: "?st' \<noteq> ?st"
  proof
    assume "?st' = ?st"
    then have "map id_m (messageList ?st') = map id_m (messageList ?st)" by simp
    moreover have "map id_m (messageList ?st) = [js ''u1'', js ''a1'', js ''u2'', js ''a2'']"
      by code_simp
    ultimately show False using l by simp
  qed
  note th = message_list_invariants[OF h1 h2, of exampleEnv "js ''third''" "[]"
      "StreamCompleted [js ''x''] True"]
  from th ne have "idsDistinct (messageList ?st')" "oneAssistantPerTurn (messageList ?st')"
    by blast+
  with h1 h2 l show ?thesis by blast
qed

subsection \<open>Blank answers (C4)\<close>

lemma isWhiteSpace_CR: "isWhiteSpace CR"
  by (simp add: isWhiteSpace_def CR_def)

lemma set_normalizeNewlines: "set s \<subseteq> insert CR (set (normalizeNewlines s))"
  by (induction s rule: normalizeNewlines.induct) auto

lemma trim_normalizeNewlines_blank: "trim (normalizeNewlines s) = [] \<Longrightarrow> trim s = []"
  using set_normalizeNewlines[of s] isWhiteSpace_CR by (auto simp: trim_empty_iff)

lemma blank_answer:
  assumes "trim (answer (separateAssistantResponse c d)) = []"
  shows "trim (normalizeNewlines c) = []"
proof (rule ccontr)
  assume ne: "trim (normalizeNewlines c) \<noteq> []"
  have "trim (answer (amended_partition c d)) \<noteq> []"
    using ne
    by (auto simp: amended_partition_def Let_def trim_trimStart split: option.splits list.splits)
  with assms show False by (simp add: separate_eq_amended)
qed

lemma blank_stored:
  assumes "trim (answer (separateAssistantResponse c d)) = []"
  shows "trim (assistantContentForStorage c d) = []"
proof -
  have "trim c = []"
    using blank_answer[OF assms] by (rule trim_normalizeNewlines_blank)
  then show ?thesis
    using assms by (simp add: assistantContentForStorage_def Let_def trim_trimStart)
qed

text \<open>
  C4. When the stream of a mounted window completes and the partitioned answer is blank,
  nothing is stored for the turn: the message list is the list with the user message
  appended (less its last assistant message when the replace preference is on), so it
  holds no assistant message that was not there before the turn and no error message is
  appended; whether the persistence call would have succeeded plays no role.
\<close>

theorem blank_answer_dropped:
  assumes "isMountedChat st"
    and "trim (answer (separateAssistantResponse
                 (effectiveContent (duplicateTestConfig st) chunks) chunks)) = []"
  shows "messageList (sendMessageToAPI env t userMessage imgs (StreamCompleted chunks ok) st)
       = (if clearPreviousAssistant st
          then removeLastAssistant
                 (dedupeMessagesById (messageList st @ [userMessageEntry env t userMessage imgs]))
          else dedupeMessagesById (messageList st @ [userMessageEntry env t userMessage imgs]))
     \<and> set (filter (\<lambda>m. role m = Assistant)
              (messageList (sendMessageToAPI env t userMessage imgs (StreamCompleted chunks ok) st)))
        \<subseteq> set (filter (\<lambda>m. role m = Assistant) (messageList st))"
proof -
  let ?nm = "dedupeMessagesById (messageList st @ [userMessageEntry env t userMessage imgs])"
  obtain st1 r where app: "appendUserMessage env t userMessage imgs st = (st1, r)"
    by (cases "appendUserMessage env t userMessage imgs st")
  note f = appendUserMessage_facts[OF app]
  have sh: "messages st1 = sessionMessages st1" using f by simp
  have l1: "messageList st1 = ?nm" using f(1,3) by (simp add: messageList_def)
  have ne: "?nm \<noteq> []" by (rule dedupe_nonempty) simp
  have blank: "trim (assistantContentForStorage
      (effectiveContent (duplicateTestConfig (spliceSessionMessages st1)) chunks) chunks) = []"
    using assms(2) f(6) by (simp add: spliceSessionMessages_facts blank_stored)
  have "completeStream env t r chunks ok st1 = spliceSessionMessages st1"
    using assms(1) f(4) blank by (simp add: completeStream_def Let_def)
  then have res: "sendMessageToAPI env t userMessage imgs (StreamCompleted chunks ok) st
      = spliceSessionMessages st1"
    using app by (simp add: sendMessageToAPI_def)
  have list: "messageList (spliceSessionMessages st1)
      = (if clearPreviousAssistant st then removeLastAssistant ?nm else ?nm)"
    using spliceSessionMessages_list[OF sh] l1 ne f(5) by simp
  have "set (messageList (spliceSessionMessages st1)) \<subseteq> set ?nm"
    unfolding list using set_removeLastAssistant[of ?nm] by auto
  also have "\<dots> \<subseteq> set (messageList st @ [userMessageEntry env t userMessage imgs])"
    by (rule set_dedupe)
  finally have "set (filter (\<lambda>m. role m = Assistant) (messageList (spliceSessionMessages st1)))
      \<subseteq> set (filter (\<lambda>m. role m = Assistant) (messageList st))"
    by (auto simp: userMessageEntry_def)
  with list show ?thesis unfolding res by simp
qed

theorem blank_answer_dropped_witness:
  "isMountedChat (twoTurnsState False)
   \<and> trim (answer (separateAssistantResponse
        (effectiveContent (duplicateTestConfig (twoTurnsState False)) [js '' '', [LF]])
        [js '' '', [LF]])) = []
   \<and> map id_m (messageList (sendMessageToAPI exampleEnv (js ''u3'') (js ''third'') []
         (StreamCompleted [js '' '', [LF]] True) (twoTurnsState False)))
      = [js ''u1'', js ''a1'', js ''u2'', js ''a2'', js ''u3'']"
proof -
  have h1: "isMountedChat (twoTurnsState False)" by (simp add: twoTurnsState_def)
  have h2: "trim (answer (separateAssistantResponse
        (effectiveContent (duplicateTestConfig (twoTurnsState False)) [js '' '', [LF]])
        [js '' '', [LF]])) = []"
    by code_simp
  have c: "clearPreviousAssistant (twoTurnsState False) = False" by (simp add: twoTurnsState_def)
  have l: "map id_m (dedupeMessagesById (messageList (twoTurnsState False)
        @ [userMessageEntry exampleEnv (js ''u3'') (js ''third'') []]))
      = [js ''u1'', js ''a1'', js ''u2'', js ''a2'', js ''u3'']"
    by code_simp
  from blank_answer_dropped[OF h1 h2, of exampleEnv "js ''u3''" "js ''third''" "[]" True]
  have "messageList (sendMessageToAPI exampleEnv (js ''u3'') (js ''third'') []
         (StreamCompleted [js '' '', [LF]] True) (twoTurnsState False))
      = dedupeMessagesById (messageList (twoTurnsState False)
        @ [userMessageEntry exampleEnv (js ''u3'') (js ''third'') []])"
    by (simp add: c)
  with l h1 h2 show ?thesis by simp
qed

subsection \<open>Replacing the last assistant reply (C10)\<close>

text \<open>
  C10 at a failing input. The session holds two finished turns (u1, a1, u2, a2) and the
  replace preference is on. The turn u3 is answered with "x". The source splices a2 out of
  \<^verbatim>\<open>session.messages\<close>, which is the array \<^verbatim>\<open>newMessages\<close>, and then removes the
  last assistant message of the clone of \<^verbatim>\<open>newMessages\<close>, which by now is a1: both
  earlier answers are gone. With the preference off nothing is removed.
\<close>

theorem clearPreviousAssistant_removes_two:
  "map id_m (messageList (twoTurnsState True)) = [js ''u1'', js ''a1'', js ''u2'', js ''a2'']
   \<and> map id_m (messageList (sendMessageToAPI exampleEnv (js ''u3'') (js ''third'') []
         (StreamCompleted [js ''x''] True) (twoTurnsState True)))
      = [js ''u1'', js ''u2'', js ''u3'', js ''a3'']
   \<and> map id_m (messageList (sendMessageToAPI exampleEnv (js ''u3'') (js ''third'') []
         (StreamCompleted [js ''x''] True) (twoTurnsState False)))
      = [js ''u1'', js ''a1'', js ''u2'', js ''a2'', js ''u3'', js ''a3'']"
  by code_simp

subsection \<open>Dispatch queue (C2)\<close>

text \<open>
  C2 at a failing input. A is sent, B and C are queued behind it. A's turn ends, the queue
  run sends B; B's turn ends and, C still being queued, \<^verbatim>\<open>processQueue\<close> sets its
  100 ms timer and clears \<^verbatim>\<open>isProcessingQueueRef\<close>. D is submitted before the timer
  fires: no flag is set, so \<^verbatim>\<open>handleSendMessage\<close> sends D at once, ahead of C. The
  timer then fires and \<^verbatim>\<open>processQueue\<close>, which looks at \<^verbatim>\<open>isProcessingQueueRef\<close>
  only, sends C while D is in flight: two requests are in flight, and the dispatch order
  is A, B, D, C for the submission order A, B, C, D. The theorem lists the calls in
  flight, the dispatch order, the queue and the number of pending timers after 3, 5, 7, 8
  and all 9 events of the trace: up to the end of B's turn one call is in flight and B is
  sent only after A's turn has ended.
\<close>

theorem race_two_in_flight:
  "map (\<lambda>n. map_option
          (\<lambda>s. (map turnMessageId (inFlight s), dispatched s, map messageId (messageQueue s),
                pendingTimers s))
          (run (take n raceTrace) initialSession))
     [3, 5, 7, 8, 9]
   = [Some ([js ''mA''], [js ''mA''], [js ''mB''], 0),
      Some ([js ''mB''], [js ''mA'', js ''mB''], [js ''mC''], 0),
      Some ([], [js ''mA'', js ''mB''], [js ''mC''], 1),
      Some ([js ''mD''], [js ''mA'', js ''mB'', js ''mD''], [js ''mC''], 1),
      Some ([js ''mD'', js ''mC''], [js ''mA'', js ''mB'', js ''mD'', js ''mC''], [], 0)]"
  by code_simp

subsection \<open>Backend failure (C5)\<close>










end
